theory Spec2Isabelle
  imports Main "HOL-Library.Signed_Division"
begin

section \<open>Data model\<close>

text \<open>
  The development embeds \<^verbatim>\<open>OctreeSendThread::handlePacketSend\<close> and
  \<^verbatim>\<open>OctreeSendThread::packetDistributor\<close> (OctreeSendThread.cpp) together with the inline
  accessors of \<^verbatim>\<open>OctreeQueryNode\<close> (OctreeQueryNode.h) and the stop reasons of
  \<^verbatim>\<open>EncodeBitstreamParams\<close> (Octree.h).

  Tree elements and view frusta are opaque references, bytes are natural numbers. Buffer sizes
  are C++ \<^verbatim>\<open>int\<close>/\<^verbatim>\<open>unsigned int\<close> values bounded by the packet size; they are
  modelled as \<^typ>\<open>int\<close>. The model is sequential: the shutdown flag and the client's wants
  are read from the session and are not changed by another thread during one call.
\<close>

type_synonym element = nat
type_synonym bytes = "nat list"
type_synonym frustum = nat

text \<open>Octree.h, \<^verbatim>\<open>EncodeBitstreamParams::reason\<close>.\<close>

datatype reason =
    UNKNOWN
  | DIDNT_FIT
  | NULL_NODE
  | TOO_DEEP
  | OUT_OF_JURISDICTION
  | LOD_SKIP
  | OUT_OF_VIEW
  | WAS_IN_VIEW
  | NO_CHANGE
  | OCCLUDED

text \<open>
  The arguments with which \<^verbatim>\<open>packetDistributor\<close> constructs \<^verbatim>\<open>EncodeBitstreamParams\<close>
  (lines 406-410). The floating-point size scale and the statistics and jurisdiction pointers
  are left out.
\<close>

record EncodeBitstreamParams =
  viewFrustum :: frustum
  includeColor :: bool
  includeExistsBits :: bool
  chopLevels :: int
  deltaViewFrustum :: bool
  lastViewFrustum :: "frustum option"
  wantOcclusionCullingP :: bool
  usesCoverageMap :: bool
  boundaryLevelAdjustP :: int
  lastViewFrustumSent :: nat
  forceSendScene :: bool

text \<open>
  Everything observable that one call does is appended to a trace: each datagram handed to
  \<^verbatim>\<open>NodeList::writeDatagram\<close>, the special packet, each call of
  \<^verbatim>\<open>encodeTreeBitstream\<close> with its subtree and parameters, and each call of
  \<^verbatim>\<open>updateLastKnownViewFrustum\<close>. An octree packet carries the sequence number that
  is stored in its header and its payload.
\<close>

datatype event =
    StatsDatagram int
  | PiggybackDatagram int int bytes
  | OctreeDatagram int bytes
  | SpecialDatagram
  | EncodeCall element EncodeBitstreamParams
  | SnapshotView frustum

text \<open>
  Constants, server settings and collaborators that the two functions use and that are
  declared outside the files at hand (OctreeServerConsts.h, OctreePacketData.h,
  PacketHeaders.h, OctreeServer.h) are parameters of the model.
\<close>

record config =
  MAX_PACKET_SIZE :: int
  OCTREE_PACKET_HEADER_BYTES :: int
  MAX_OCTREE_PACKET_DATA_SIZE :: int
  SECTION_SIZE_BYTES :: int
  INTERVALS_PER_SECOND :: int
  MINIMUM_ATTEMPT_MORE_PACKING :: int
  REASONABLE_NUMBER_OF_PACKING_ATTEMPTS :: int
  COMPRESS_PADDING :: int
  LOW_RES_MOVING_ADJUST :: int
  NO_BOUNDARY_ADJUST :: int
  packetsPerClientPerInterval :: int
  hasSpecialPacketToSend :: bool
  specialPacketBytes :: int
  root :: element
  rootLastChanged :: nat
  usecTimestampNow :: nat
  compressContent :: "bytes \<Rightarrow> bytes"
  SEQUENCE_BITS :: nat

text \<open>
  Modelled from the spec: \<^verbatim>\<open>OctreeSceneStats\<close> is not among the sources. The spec says that
  scene start and completion are recorded and that a statistics summary can be ready to send;
  the comment at line 315 says that completed scenes are tracked so that the stats packet is
  sent. Completing a started scene makes the summary ready, \<^verbatim>\<open>markAsSent\<close> clears it.
\<close>

record OctreeSceneStats =
  isStarted :: bool
  isReadyToSend :: bool
  statsMessageLength :: int
  statsPackets :: int
  statsBytes :: int

definition sceneCompleted :: "OctreeSceneStats \<Rightarrow> OctreeSceneStats" where
  "sceneCompleted st =
     (if isStarted st then st\<lparr>isReadyToSend := True, isStarted := False\<rparr> else st)"

definition sceneStarted :: "OctreeSceneStats \<Rightarrow> OctreeSceneStats" where
  "sceneStarted st = st\<lparr>isStarted := True\<rparr>"

definition markAsSent :: "OctreeSceneStats \<Rightarrow> OctreeSceneStats" where
  "markAsSent st = st\<lparr>isReadyToSend := False\<rparr>"

definition packetSent :: "int \<Rightarrow> OctreeSceneStats \<Rightarrow> OctreeSceneStats" where
  "packetSent bytes st =
     st\<lparr>statsPackets := statsPackets st + 1, statsBytes := statsBytes st + bytes\<rparr>"

text \<open>
  Modelled from the spec: \<^verbatim>\<open>OctreePacketData\<close> is not among the sources. It accumulates the
  bytes the encoder writes towards a target size; \<^verbatim>\<open>changeSettings\<close> resets it; its
  finalized form is the content itself, or the compressed content in compressed mode.
\<close>

record OctreePacketData =
  enableCompression :: bool
  targetSize :: int
  content :: bytes

definition hasContent :: "OctreePacketData \<Rightarrow> bool" where
  "hasContent pd = (content pd \<noteq> [])"

definition changeSettings :: "bool \<Rightarrow> int \<Rightarrow> OctreePacketData \<Rightarrow> OctreePacketData" where
  "changeSettings compress target pd =
     pd\<lparr>enableCompression := compress, targetSize := target, content := []\<rparr>"

definition getFinalizedData :: "config \<Rightarrow> OctreePacketData \<Rightarrow> bytes" where
  "getFinalizedData cfg pd =
     (if enableCompression pd then compressContent cfg (content pd) else content pd)"

definition getFinalizedSize :: "config \<Rightarrow> OctreePacketData \<Rightarrow> int" where
  "getFinalizedSize cfg pd = int (length (getFinalizedData cfg pd))"

subsection \<open>The per-client session\<close>

text \<open>
  The fields of \<^verbatim>\<open>OctreeQueryNode\<close> (OctreeQueryNode.h, lines 112-146) that the two
  functions read or write, and the client's wants inherited from \<^verbatim>\<open>OctreeQuery\<close>.
  \<^verbatim>\<open>octreePacket\<close> is the payload behind the packet header and
  \<^verbatim>\<open>octreePacketSequence\<close> the sequence number stored in that header.
  \<^verbatim>\<open>moveShouldDump\<close> holds what the method of that name answers in this cycle.
\<close>

record OctreeQueryNode =
  isShuttingDown :: bool
  wantColor :: bool
  wantCompression :: bool
  wantDelta :: bool
  wantLowResMoving :: bool
  wantOcclusionCulling :: bool
  maxOctreePacketsPerSecond :: int
  boundaryLevelAdjust :: int
  viewSent :: bool
  octreePacket :: bytes
  octreePacketSequence :: int
  octreePacketAvailableBytes :: int
  octreePacketWaiting :: bool
  lastOctreePacket :: bytes
  duplicatePacketCount :: int
  currentViewFrustum :: frustum
  lastKnownViewFrustum :: frustum
  lastTimeBagEmpty :: nat
  viewFrustumChanging :: bool
  viewFrustumJustStoppedChanging :: bool
  currentPacketIsColor :: bool
  currentPacketIsCompressed :: bool
  lodChanged :: bool
  moveShouldDump :: bool
  sequenceNumber :: int
  lastRootTimestamp :: nat
  nodeBag :: "element list"
  map_coverage :: "element list"
  stats :: OctreeSceneStats

text \<open>Inline accessors of OctreeQueryNode.h.\<close>

definition getPacketLength :: "config \<Rightarrow> OctreeQueryNode \<Rightarrow> int" where
  "getPacketLength cfg nd = MAX_PACKET_SIZE cfg - octreePacketAvailableBytes nd"

definition isPacketWaiting :: "OctreeQueryNode \<Rightarrow> bool" where
  "isPacketWaiting nd = octreePacketWaiting nd"

definition getAvailable :: "OctreeQueryNode \<Rightarrow> int" where
  "getAvailable nd = octreePacketAvailableBytes nd"

definition getCurrentPacketFormatMatches :: "OctreeQueryNode \<Rightarrow> bool" where
  "getCurrentPacketFormatMatches nd =
     (currentPacketIsColor nd = wantColor nd \<and> currentPacketIsCompressed nd = wantCompression nd)"

definition hasLodChanged :: "OctreeQueryNode \<Rightarrow> bool" where
  "hasLodChanged nd = lodChanged nd"

text \<open>
  Modelled from the spec: OctreeQueryNode.cpp is not among the sources, only the declarations
  in OctreeQueryNode.h. Following section 4.1 of the spec, every operation is a no-op once the
  session is shutting down.

  \<^verbatim>\<open>resetOctreePacket\<close> starts a fresh packet: the payload is emptied, the flags are locked to
  the client's current wants, the header takes the current sequence number, and the packet is
  no longer waiting. It is the only session operation \<^verbatim>\<open>handlePacketSend\<close> calls on the
  packet after a transmission, so it is also where the outgoing payload is kept as the last
  sent packet.
\<close>

definition resetOctreePacket :: "config \<Rightarrow> OctreeQueryNode \<Rightarrow> OctreeQueryNode" where
  "resetOctreePacket cfg nd =
     (if isShuttingDown nd then nd
      else nd\<lparr>lastOctreePacket := octreePacket nd,
              currentPacketIsColor := wantColor nd,
              currentPacketIsCompressed := wantCompression nd,
              octreePacket := [],
              octreePacketSequence := sequenceNumber nd,
              octreePacketAvailableBytes := MAX_PACKET_SIZE cfg - OCTREE_PACKET_HEADER_BYTES cfg,
              octreePacketWaiting := False\<rparr>)"

text \<open>
  Modelled from the spec: \<^verbatim>\<open>writeToPacket\<close> appends the bytes to the payload and marks the
  packet as waiting; in a compressed packet each appended section is preceded by its size
  field (the \<^verbatim>\<open>sizeof(OCTREE_PACKET_INTERNAL_SECTION_SIZE)\<close> that line 472 adds). A section
  that does not fit is not copied.
\<close>

definition writeToPacket :: "config \<Rightarrow> bytes \<Rightarrow> OctreeQueryNode \<Rightarrow> OctreeQueryNode" where
  "writeToPacket cfg buffer nd =
     (if isShuttingDown nd then nd
      else
        let avail = (if currentPacketIsCompressed nd
                     then octreePacketAvailableBytes nd - SECTION_SIZE_BYTES cfg
                     else octreePacketAvailableBytes nd)
        in if int (length buffer) \<le> avail
           then nd\<lparr>octreePacket := octreePacket nd @ buffer,
                   octreePacketAvailableBytes := avail - int (length buffer),
                   octreePacketWaiting := True\<rparr>
           else nd\<lparr>octreePacketAvailableBytes := avail\<rparr>)"

text \<open>
  Modelled from the spec: \<^verbatim>\<open>incrementSequenceNumber\<close> advances the sequence number by one.
  The counter is an \<^verbatim>\<open>OCTREE_PACKET_SEQUENCE\<close> (OctreeQueryNode.h, line 141), an unsigned
  scalar of fixed width that is copied out of the packet header with \<^verbatim>\<open>sizeof\<close>
  (OctreeSendThread.cpp, lines 148-149). Its typedef is not among the sources, so the width
  in bits is the parameter \<^verbatim>\<open>SEQUENCE_BITS\<close>, and advancing the largest number wraps to 0.
\<close>

definition incrementSequenceNumber :: "config \<Rightarrow> OctreeQueryNode \<Rightarrow> OctreeQueryNode" where
  "incrementSequenceNumber cfg nd =
     nd\<lparr>sequenceNumber := (sequenceNumber nd + 1) mod 2 ^ SEQUENCE_BITS cfg\<rparr>"

text \<open>
  Modelled from the spec (section 4.1, property P2): the finalized packet is a duplicate when
  it has the same length and bytes as the last sent packet. \<^verbatim>\<open>shouldSuppressDuplicatePacket\<close>
  answers true for a duplicate while the view is not actively changing and then increments
  the duplicate counter; otherwise the counter is reset to 0. The result is the answer and the
  updated session.
\<close>

definition packetIsDuplicate :: "OctreeQueryNode \<Rightarrow> bool" where
  "packetIsDuplicate nd = (\<not> isShuttingDown nd \<and> lastOctreePacket nd = octreePacket nd)"

definition shouldSuppressDuplicatePacket :: "OctreeQueryNode \<Rightarrow> bool \<times> OctreeQueryNode" where
  "shouldSuppressDuplicatePacket nd =
     (if isShuttingDown nd then (True, nd)
      else if packetIsDuplicate nd \<and> \<not> viewFrustumChanging nd
      then (True, nd\<lparr>duplicatePacketCount := duplicatePacketCount nd + 1\<rparr>)
      else (False, nd\<lparr>duplicatePacketCount := 0\<rparr>))"

text \<open>
  Modelled from the spec: \<^verbatim>\<open>updateLastKnownViewFrustum\<close> snapshots the current view into the
  last known view, \<^verbatim>\<open>setViewSent\<close> marks the view as sent, \<^verbatim>\<open>dumpOutOfView\<close> discards the
  contents of the VisitBag (step 4 of section 4.3), and \<^verbatim>\<open>CoverageMap::erase\<close> empties the
  coverage map.
\<close>

definition updateLastKnownViewFrustum :: "OctreeQueryNode \<Rightarrow> OctreeQueryNode" where
  "updateLastKnownViewFrustum nd =
     (if isShuttingDown nd then nd else nd\<lparr>lastKnownViewFrustum := currentViewFrustum nd\<rparr>)"

definition setViewSent :: "bool \<Rightarrow> OctreeQueryNode \<Rightarrow> OctreeQueryNode" where
  "setViewSent v nd = nd\<lparr>viewSent := v\<rparr>"

definition dumpOutOfView :: "OctreeQueryNode \<Rightarrow> OctreeQueryNode" where
  "dumpOutOfView nd = (if isShuttingDown nd then nd else nd\<lparr>nodeBag := []\<rparr>)"

definition map_erase :: "OctreeQueryNode \<Rightarrow> OctreeQueryNode" where
  "map_erase nd = nd\<lparr>map_coverage := []\<rparr>"

text \<open>
  Modelled from the spec: \<^verbatim>\<open>OctreeElementBag\<close> is a deduplicated, ordered collection of
  element references: \<^verbatim>\<open>insert\<close> ignores an element that is already present,
  \<^verbatim>\<open>extract\<close> takes the first one, \<^verbatim>\<open>deleteAll\<close> empties it.
\<close>

definition bag_insert :: "element \<Rightarrow> element list \<Rightarrow> element list" where
  "bag_insert e bag = (if e \<in> set bag then bag else bag @ [e])"

definition bag_deleteAll :: "element list \<Rightarrow> element list" where
  "bag_deleteAll bag = []"

section \<open>The sender: handlePacketSend\<close>

text \<open>
  The frame holds what \<^verbatim>\<open>handlePacketSend\<close> and \<^verbatim>\<open>packetDistributor\<close> work on: the
  session, the thread's packet assembler \<^verbatim>\<open>_packetData\<close>, the static byte and packet
  counters, the trace, the two reference parameters \<^verbatim>\<open>trueBytesSent\<close> and
  \<^verbatim>\<open>truePacketsSent\<close>, and the locals of the distributor that live across loop iterations.
\<close>

record frame =
  node :: OctreeQueryNode
  packetData :: OctreePacketData
  totalBytes :: int
  totalWastedBytes :: int
  totalPackets :: int
  trace :: "event list"
  trueBytesSent :: int
  truePacketsSent :: int
  packetsSentThisInterval :: int
  somethingToSend :: bool
  extraPackingAttempts :: int
  completedScene :: bool

text \<open>
  Lines 152-218: a ready statistics message is sent in one datagram with the octree packet
  when both fit, otherwise as a datagram of its own followed by the octree packet. The result
  is the number of packets counted so far in this call and the frame.
\<close>

definition sendWithStats :: "config \<Rightarrow> frame \<Rightarrow> int \<times> frame" where
  "sendWithStats cfg f =
     (let nd = node f;
          statsLen = statsMessageLength (stats nd);
          piggyBackSize = getPacketLength cfg nd + statsLen;
          f' =
            (if piggyBackSize < MAX_PACKET_SIZE cfg
             then (0, f\<lparr>totalBytes := totalBytes f + getPacketLength cfg nd,
                       totalPackets := totalPackets f + 1,
                       trace := trace f @
                         [PiggybackDatagram statsLen (octreePacketSequence nd) (octreePacket nd)]\<rparr>)
             else (1, f\<lparr>totalWastedBytes :=
                         totalWastedBytes f + (MAX_PACKET_SIZE cfg - getPacketLength cfg nd),
                       totalBytes := totalBytes f + statsLen + getPacketLength cfg nd,
                       totalPackets := totalPackets f + 2,
                       trueBytesSent := trueBytesSent f + statsLen,
                       truePacketsSent := truePacketsSent f + 1,
                       trace := trace f @
                         [StatsDatagram statsLen,
                          OctreeDatagram (octreePacketSequence nd) (octreePacket nd)]\<rparr>))
      in (fst f', (snd f')\<lparr>node := (node (snd f'))\<lparr>stats := markAsSent (stats nd)\<rparr>\<rparr>))"

text \<open>Lines 222-237: without a statistics message only the waiting octree packet is sent.\<close>

definition sendWaiting :: "config \<Rightarrow> frame \<Rightarrow> frame" where
  "sendWaiting cfg f =
     (let nd = node f
      in f\<lparr>totalWastedBytes := totalWastedBytes f + (MAX_PACKET_SIZE cfg - getPacketLength cfg nd),
           totalBytes := totalBytes f + getPacketLength cfg nd,
           totalPackets := totalPackets f + 1,
           trace := trace f @ [OctreeDatagram (octreePacketSequence nd) (octreePacket nd)]\<rparr>)"

text \<open>Lines 240-247: the bookkeeping after a transmission.\<close>

definition trackSent :: "config \<Rightarrow> frame \<Rightarrow> frame" where
  "trackSent cfg f =
     (let nd = node f;
          len = getPacketLength cfg nd;
          nd1 = nd\<lparr>stats := packetSent len (stats nd)\<rparr>
      in f\<lparr>trueBytesSent := trueBytesSent f + len,
           truePacketsSent := truePacketsSent f + 1,
           node := resetOctreePacket cfg (incrementSequenceNumber cfg nd1)\<rparr>)"

text \<open>
  \<^verbatim>\<open>handlePacketSend\<close> (lines 121-250). The result is the returned \<^verbatim>\<open>packetsSent\<close> and the
  frame after the call.
\<close>

definition handlePacketSend :: "config \<Rightarrow> frame \<Rightarrow> int \<times> frame" where
  "handlePacketSend cfg f =
     (if isShuttingDown (node f) then (0, f)
      else
        let (suppress, nd) = shouldSuppressDuplicatePacket (node f);
            f1 = f\<lparr>node := nd\<rparr>
        in if suppress then (0, f1\<lparr>node := resetOctreePacket cfg nd\<rparr>)
           else if isReadyToSend (stats nd) \<and> \<not> isShuttingDown nd then
             (let (packetsSent, f2) = sendWithStats cfg f1
              in (packetsSent + 1, trackSent cfg f2))
           else if isPacketWaiting nd \<and> \<not> isShuttingDown nd then
             (1, trackSent cfg (sendWaiting cfg f1))
           else (0, f1))"


text \<open>\<^verbatim>\<open>packetsSentThisInterval += handlePacketSend(nodeData, trueBytesSent, truePacketsSent)\<close>.\<close>

definition sendAndCount :: "config \<Rightarrow> frame \<Rightarrow> frame" where
  "sendAndCount cfg f =
     (let (n, f') = handlePacketSend cfg f
      in f'\<lparr>packetsSentThisInterval := packetsSentThisInterval f' + n\<rparr>)"

section \<open>The distributor: packetDistributor\<close>

text \<open>Lines 265-266.\<close>

definition isFullScene :: "OctreeQueryNode \<Rightarrow> bool \<Rightarrow> bool" where
  "isFullScene nd viewFrustumChanged =
     (((\<not> viewFrustumChanged \<or> \<not> wantDelta nd) \<and> viewFrustumJustStoppedChanging nd)
      \<or> hasLodChanged nd)"

text \<open>
  The parameter \<^verbatim>\<open>viewFrustumChanged\<close> and the locals that are computed once at entry and
  only read afterwards (lines 265-278).
\<close>

record cycle =
  viewFrustumChanged :: bool
  fullScene :: bool
  wantDeltaC :: bool
  wantColorC :: bool
  wantCompressionC :: bool

definition startCycle :: "OctreeQueryNode \<Rightarrow> bool \<Rightarrow> cycle" where
  "startCycle nd changed =
     \<lparr>viewFrustumChanged = changed,
      fullScene = isFullScene nd changed,
      wantDeltaC = (changed \<and> wantDelta nd),
      wantColorC = wantColor nd,
      wantCompressionC = wantCompression nd\<rparr>"

text \<open>
  Lines 282-293: a packet whose locked format differs from the client's wants is sent if it
  is waiting and reset otherwise, and the assembler is given the target size of the new
  format.
\<close>

definition flushOnFormatChange :: "config \<Rightarrow> cycle \<Rightarrow> frame \<Rightarrow> frame" where
  "flushOnFormatChange cfg cyc f =
     (if \<not> getCurrentPacketFormatMatches (node f) then
        let f1 = (if isPacketWaiting (node f) then sendAndCount cfg f
                  else f\<lparr>node := resetOctreePacket cfg (node f)\<rparr>);
            target = (if wantCompressionC cyc
                      then getAvailable (node f1) - SECTION_SIZE_BYTES cfg
                      else MAX_OCTREE_PACKET_DATA_SIZE cfg)
        in f1\<lparr>packetData := changeSettings (wantCompressionC cyc) target (packetData f1)\<rparr>
      else f)"

text \<open>
  Lines 299-348, the scene-restart boundary, entered when the view changed or the bag is
  empty: \<^verbatim>\<open>resetForViewChange\<close> is lines 302-307, \<^verbatim>\<open>sceneBoundary\<close> is the session as
  line 325 finds it (lines 302-317), \<^verbatim>\<open>restartScene\<close> the whole block. The experimental
  \<^verbatim>\<open>dontRestartSceneOnMove\<close> is the constant \<^verbatim>\<open>false\<close>, so the root is inserted
  unconditionally.
\<close>

definition resetForViewChange :: "OctreeQueryNode \<Rightarrow> OctreeQueryNode" where
  "resetForViewChange nd =
     map_erase (if moveShouldDump nd \<or> hasLodChanged nd then dumpOutOfView nd else nd)"

definition sceneBoundary :: "config \<Rightarrow> cycle \<Rightarrow> frame \<Rightarrow> frame" where
  "sceneBoundary cfg cyc f =
     (let nd0 = node f;
          nd1 = (if viewFrustumChanged cyc then resetForViewChange nd0 else nd0);
          nd2 = (if \<not> viewFrustumChanged cyc \<and> \<not> wantDelta nd1
                 then nd1\<lparr>lastTimeBagEmpty := usecTimestampNow cfg\<rparr> else nd1)
      in f\<lparr>node := nd2\<lparr>stats := sceneCompleted (stats nd2),
                          lastRootTimestamp := rootLastChanged cfg\<rparr>\<rparr>)"

definition restartScene :: "config \<Rightarrow> cycle \<Rightarrow> frame \<Rightarrow> frame" where
  "restartScene cfg cyc f =
     (if viewFrustumChanged cyc \<or> nodeBag (node f) = [] then
        let f1 = sendAndCount cfg (sceneBoundary cfg cyc f);
            nd4 = node f1;
            nd5 = (if fullScene cyc then nd4\<lparr>nodeBag := bag_deleteAll (nodeBag nd4)\<rparr> else nd4);
            nd6 = nd5\<lparr>stats := sceneStarted (stats nd5)\<rparr>
        in f1\<lparr>node := nd6\<lparr>nodeBag := bag_insert (root cfg) (nodeBag nd6)\<rparr>\<rparr>
      else f)"

text \<open>
  The tree encoder is a black box that reads a tree which other threads change. One call of
  \<^verbatim>\<open>encodeTreeBitstream\<close> is described by what it does: the bytes it appends to the
  assembler (their number is the returned \<^verbatim>\<open>bytesWritten\<close>), the stop reason it leaves in
  the parameters, the elements it inserts into the bag, and the elements it adds to the
  coverage map. A run of the distributor is driven by the list of the encoder's answers.
\<close>

record encoded =
  appended :: bytes
  stopReason :: reason
  requeued :: "element list"
  covered :: "element list"

text \<open>Lines 432-446: the decision whether the last node did not fit.\<close>

definition lastNodeDidntFit :: "config \<Rightarrow> OctreePacketData \<Rightarrow> int \<Rightarrow> reason \<Rightarrow> bool" where
  "lastNodeDidntFit cfg pd bytesWritten stop =
     (if targetSize pd = MAX_OCTREE_PACKET_DATA_SIZE cfg
      then (if hasContent pd \<and> bytesWritten = 0 \<and> stop = DIDNT_FIT then True else False)
      else (if bytesWritten = 0 \<and> stop = DIDNT_FIT then True else False))"

definition encodeParams :: "config \<Rightarrow> cycle \<Rightarrow> OctreeQueryNode \<Rightarrow> EncodeBitstreamParams" where
  "encodeParams cfg cyc nd =
     \<lparr>viewFrustum = currentViewFrustum nd,
      includeColor = wantColorC cyc,
      includeExistsBits = True,
      chopLevels = 0,
      deltaViewFrustum = wantDeltaC cyc,
      lastViewFrustum = (if wantDeltaC cyc then Some (lastKnownViewFrustum nd) else None),
      wantOcclusionCullingP = wantOcclusionCulling nd,
      usesCoverageMap = wantOcclusionCulling nd,
      boundaryLevelAdjustP = boundaryLevelAdjust nd +
        (if viewFrustumChanged cyc \<and> wantLowResMoving nd
         then LOW_RES_MOVING_ADJUST cfg else NO_BOUNDARY_ADJUST cfg),
      lastViewFrustumSent = lastTimeBagEmpty nd,
      forceSendScene = fullScene cyc\<rparr>"

text \<open>
  Lines 373-449, the branch with a non-empty bag: \<^verbatim>\<open>subTree\<close> is the extracted element,
  \<^verbatim>\<open>rest\<close> the bag without it, \<^verbatim>\<open>r\<close> the encoder's answer. The result is the flag
  \<^verbatim>\<open>lastNodeDidntFit\<close> and the frame.
\<close>

definition encodeStep ::
  "config \<Rightarrow> cycle \<Rightarrow> encoded \<Rightarrow> element \<Rightarrow> element list \<Rightarrow> frame \<Rightarrow> bool \<times> frame" where
  "encodeStep cfg cyc r subTree rest f =
     (let nd = node f;
          params = encodeParams cfg cyc nd;
          pd = (packetData f)\<lparr>content := content (packetData f) @ appended r\<rparr>;
          bag = fold bag_insert (requeued r) rest;
          bytesWritten = int (length (appended r));
          nd' = nd\<lparr>nodeBag := bag,
                  map_coverage := (if usesCoverageMap params
                                   then map_coverage nd @ covered r else map_coverage nd)\<rparr>;
          f1 = f\<lparr>node := nd', packetData := pd,
                 trace := trace f @ [EncodeCall subTree params],
                 completedScene := (bag = [])\<rparr>;
          f2 = (if targetSize pd = MAX_OCTREE_PACKET_DATA_SIZE cfg then f1
                else f1\<lparr>extraPackingAttempts := extraPackingAttempts f1 + 1\<rparr>)
      in (lastNodeDidntFit cfg pd bytesWritten (stopReason r), f2))"

text \<open>
  Lines 464-514, entered when the scene completed or the last node did not fit: the finalized
  assembler content is written to the packet (after sending the packet first when the content
  would not fit), then the packet is sent unless it is compressed and worth packing more into.
\<close>

definition writeFinalized :: "config \<Rightarrow> frame \<Rightarrow> frame" where
  "writeFinalized cfg f =
     (if hasContent (packetData f) then
        let writtenSize = getFinalizedSize cfg (packetData f) +
              (if currentPacketIsCompressed (node f) then SECTION_SIZE_BYTES cfg else 0);
            f1 = (if writtenSize > getAvailable (node f) then sendAndCount cfg f else f)
        in f1\<lparr>node := writeToPacket cfg (getFinalizedData cfg (packetData f1)) (node f1),
              extraPackingAttempts := 0\<rparr>
      else f)"

definition packStep :: "config \<Rightarrow> cycle \<Rightarrow> frame \<Rightarrow> frame" where
  "packStep cfg cyc f =
     (let f1 = writeFinalized cfg f;
          sendNow = (\<not> (currentPacketIsCompressed (node f1) \<and>
                        getAvailable (node f1) \<ge> MINIMUM_ATTEMPT_MORE_PACKING cfg \<and>
                        extraPackingAttempts f1 \<le> REASONABLE_NUMBER_OF_PACKING_ATTEMPTS cfg));
          f2 = (if sendNow then sendAndCount cfg f1 else f1);
          target = (if sendNow
                    then (if wantCompressionC cyc
                          then getAvailable (node f2) - SECTION_SIZE_BYTES cfg
                          else MAX_OCTREE_PACKET_DATA_SIZE cfg)
                    else getAvailable (node f2) - SECTION_SIZE_BYTES cfg - COMPRESS_PADDING cfg)
      in f2\<lparr>packetData := changeSettings (wantCompression (node f2)) target (packetData f2)\<rparr>)"

text \<open>One iteration of the loop body (lines 365-524); the timing statistics are left out.\<close>

definition iteration :: "config \<Rightarrow> cycle \<Rightarrow> bool \<times> frame \<Rightarrow> frame" where
  "iteration cfg cyc p =
     (if completedScene (snd p) \<or> fst p then packStep cfg cyc (snd p) else snd p)"

text \<open>
  The packing loop (lines 364-525). With a non-empty bag an iteration consumes the next
  answer of the encoder; the loop has no result when the answers run out while it still
  wants to encode.
\<close>

function packingLoop ::
  "config \<Rightarrow> cycle \<Rightarrow> int \<Rightarrow> encoded list \<Rightarrow> frame \<Rightarrow> frame option" where
  "packingLoop cfg cyc maxPacketsPerInterval answers f =
     (if somethingToSend f \<and> packetsSentThisInterval f < maxPacketsPerInterval
         \<and> \<not> isShuttingDown (node f) then
        (case nodeBag (node f) of
           subTree # rest \<Rightarrow>
             (case answers of
                [] \<Rightarrow> None
              | r # rs \<Rightarrow>
                  packingLoop cfg cyc maxPacketsPerInterval rs
                    (iteration cfg cyc (encodeStep cfg cyc r subTree rest f)))
         | [] \<Rightarrow>
             packingLoop cfg cyc maxPacketsPerInterval answers
               (iteration cfg cyc (False, f\<lparr>somethingToSend := False\<rparr>)))
      else Some f)"
  by pat_completeness auto
termination
proof (relation "measure (\<lambda>(cfg, cyc, m, answers, f).
        2 * length answers + (if somethingToSend f then 1 else 0))")
  have send: "somethingToSend (sendAndCount cfg f) = somethingToSend f" for cfg f
    by (simp add: sendAndCount_def handlePacketSend_def sendWithStats_def sendWaiting_def
        trackSent_def Let_def split: prod.splits)
  have pack: "somethingToSend (packStep cfg cyc f) = somethingToSend f" for cfg cyc f
    by (simp add: packStep_def writeFinalized_def Let_def send)
  have "\<not> somethingToSend (iteration cfg cyc (False, f\<lparr>somethingToSend := False\<rparr>))"
    for cfg cyc f
    by (simp add: iteration_def pack)
  then show "\<And>cfg cyc maxPacketsPerInterval answers f.
       somethingToSend f \<and> packetsSentThisInterval f < maxPacketsPerInterval
          \<and> \<not> isShuttingDown (node f) \<Longrightarrow>
       nodeBag (node f) = [] \<Longrightarrow>
       ((cfg, cyc, maxPacketsPerInterval, answers,
         iteration cfg cyc (False, f\<lparr>somethingToSend := False\<rparr>)),
        cfg, cyc, maxPacketsPerInterval, answers, f)
       \<in> measure (\<lambda>(cfg, cyc, m, answers, f).
            2 * length answers + (if somethingToSend f then 1 else 0))"
    by simp
qed auto

declare packingLoop.simps [simp del]

text \<open>Lines 531-535: the special packet, and lines 550-554: the end of a scene.\<close>

definition sendSpecial :: "config \<Rightarrow> frame \<Rightarrow> frame" where
  "sendSpecial cfg f =
     (if hasSpecialPacketToSend cfg \<and> \<not> isShuttingDown (node f)
      then f\<lparr>trueBytesSent := trueBytesSent f + specialPacketBytes cfg,
             truePacketsSent := truePacketsSent f + 1,
             packetsSentThisInterval := packetsSentThisInterval f + 1,
             trace := trace f @ [SpecialDatagram]\<rparr>
      else f)"

definition sceneSent :: "frame \<Rightarrow> frame" where
  "sceneSent f =
     (if nodeBag (node f) = []
      then f\<lparr>node := map_erase (setViewSent True (updateLastKnownViewFrustum (node f))),
             trace := trace f @ [SnapshotView (currentViewFrustum (node f))]\<rparr>
      else f)"

definition maxPacketsPerInterval :: "config \<Rightarrow> OctreeQueryNode \<Rightarrow> int" where
  "maxPacketsPerInterval cfg nd =
     (let clientMaxPacketsPerInterval =
            max 1 (maxOctreePacketsPerSecond nd sdiv INTERVALS_PER_SECOND cfg)
      in min clientMaxPacketsPerInterval (packetsPerClientPerInterval cfg))"

text \<open>Lines 262-268: the counters and the flag a call starts with.\<close>

definition entry :: "frame \<Rightarrow> frame" where
  "entry f =
     f\<lparr>truePacketsSent := 0, trueBytesSent := 0, packetsSentThisInterval := 0,
       somethingToSend := True\<rparr>"

text \<open>The state at line 350, before the bag is turned into packets.\<close>

definition beforeLoop :: "config \<Rightarrow> bool \<Rightarrow> frame \<Rightarrow> frame" where
  "beforeLoop cfg changed f =
     (let cyc = startCycle (node f) changed
      in restartScene cfg cyc (flushOnFormatChange cfg cyc (entry f)))"

text \<open>
  \<^verbatim>\<open>packetDistributor\<close> (lines 253-559). The result is the returned \<^verbatim>\<open>truePacketsSent\<close> and
  the frame after the call, or nothing when the encoder's answers ran out.
\<close>

definition packetDistributor ::
  "config \<Rightarrow> encoded list \<Rightarrow> bool \<Rightarrow> frame \<Rightarrow> (int \<times> frame) option" where
  "packetDistributor cfg answers changed f =
     (if isShuttingDown (node f) then Some (0, f)
      else
        let cyc = startCycle (node f) changed;
            f2 = beforeLoop cfg changed f
        in if nodeBag (node f2) \<noteq> [] then
             (case packingLoop cfg cyc (maxPacketsPerInterval cfg (node f2)) answers
                     (f2\<lparr>extraPackingAttempts := 0, completedScene := False\<rparr>) of
                None \<Rightarrow> None
              | Some f4 \<Rightarrow>
                  let f6 = sceneSent (sendSpecial cfg f4)
                  in Some (truePacketsSent f6, f6))
           else Some (truePacketsSent f2, f2))"


section \<open>Reading the trace\<close>

fun isDatagram :: "event \<Rightarrow> bool" where
  "isDatagram (StatsDatagram n) = True"
| "isDatagram (PiggybackDatagram n s b) = True"
| "isDatagram (OctreeDatagram s b) = True"
| "isDatagram e = False"

fun isEncodeCall :: "event \<Rightarrow> bool" where
  "isEncodeCall (EncodeCall e p) = True"
| "isEncodeCall e = False"

fun isSnapshot :: "event \<Rightarrow> bool" where
  "isSnapshot (SnapshotView v) = True"
| "isSnapshot e = False"

fun isSpecial :: "event \<Rightarrow> bool" where
  "isSpecial SpecialDatagram = True"
| "isSpecial e = False"

text \<open>The sequence numbers carried by the transmitted octree packets, in order.\<close>

fun carriedSequence :: "event list \<Rightarrow> int list" where
  "carriedSequence [] = []"
| "carriedSequence (PiggybackDatagram n s b # es) = s # carriedSequence es"
| "carriedSequence (OctreeDatagram s b # es) = s # carriedSequence es"
| "carriedSequence (e # es) = carriedSequence es"

text \<open>The events that a call which leads from frame \<open>f\<close> to frame \<open>f'\<close> added.\<close>

definition during :: "frame \<Rightarrow> frame \<Rightarrow> event list" where
  "during f f' = drop (length (trace f)) (trace f')"

text \<open>The returned count and the events of a run of the distributor that started in \<open>f\<close>.\<close>

definition outcome :: "frame \<Rightarrow> (int \<times> frame) option \<Rightarrow> (int \<times> event list) option" where
  "outcome f r = map_option (\<lambda>(n, f'). (n, during f f')) r"

text \<open>
  The events a loop iteration can add in a cycle whose full-scene flag is \<open>full\<close>: datagrams
  of \<^verbatim>\<open>handlePacketSend\<close> and encoder calls that are given this flag.
\<close>

fun loopEvent :: "bool \<Rightarrow> event \<Rightarrow> bool" where
  "loopEvent full (EncodeCall e p) = (forceSendScene p = full)"
| "loopEvent full SpecialDatagram = False"
| "loopEvent full (SnapshotView v) = False"
| "loopEvent full e = True"

text \<open>
  \<open>progress allowed k f f'\<close>: from \<open>f\<close> to \<open>f'\<close> the trace grew by allowed events, among them
  at most \<open>k\<close> datagrams, and both packet counters grew by the number of these datagrams.
\<close>

definition progress :: "(event \<Rightarrow> bool) \<Rightarrow> int \<Rightarrow> frame \<Rightarrow> frame \<Rightarrow> bool" where
  "progress allowed k f f' \<longleftrightarrow>
     (\<exists>es. trace f' = trace f @ es \<and> list_all allowed es \<and>
        packetsSentThisInterval f' =
          packetsSentThisInterval f + int (length (filter isDatagram es)) \<and>
        truePacketsSent f' = truePacketsSent f + int (length (filter isDatagram es)) \<and>
        int (length (filter isDatagram es)) \<le> k)"

text \<open>
  \<open>guarded m es\<close>: before every encoder call in \<open>es\<close>, fewer than \<open>m\<close> datagrams were
  sent in \<open>es\<close>.
\<close>

definition guarded :: "int \<Rightarrow> event list \<Rightarrow> bool" where
  "guarded m es =
     list_all (\<lambda>i. isEncodeCall (es ! i) \<longrightarrow> int (length (filter isDatagram (take i es))) < m)
       [0 ..< length es]"

text \<open>The part of the session that no step of a call writes.\<close>

definition fixed :: "frame \<Rightarrow> bool \<times> frustum \<times> int" where
  "fixed f =
     (isShuttingDown (node f), currentViewFrustum (node f), maxOctreePacketsPerSecond (node f))"

text \<open>What lines 531-535 and 550-554 add to the trace after the loop.\<close>

definition specialEvents :: "config \<Rightarrow> frame \<Rightarrow> event list" where
  "specialEvents cfg f =
     (if hasSpecialPacketToSend cfg \<and> \<not> isShuttingDown (node f) then [SpecialDatagram] else [])"

definition snapshotEvents :: "frame \<Rightarrow> event list" where
  "snapshotEvents f =
     (if nodeBag (node f) = [] then [SnapshotView (currentViewFrustum (node f))] else [])"

text \<open>
  Sequence numbers live in \<open>SEQUENCE_BITS\<close> bits: \<open>wrapped\<close> reduces a number to that range,
  and \<open>numbering cfg n0 k\<close> are the \<open>k\<close> numbers \<open>n0\<close>, \<open>n0 + 1\<close>, ..., each reduced.
\<close>

definition wrapped :: "config \<Rightarrow> int \<Rightarrow> int" where
  "wrapped cfg n = n mod 2 ^ SEQUENCE_BITS cfg"

definition numbering :: "config \<Rightarrow> int \<Rightarrow> nat \<Rightarrow> int list" where
  "numbering cfg n0 k = map (\<lambda>i. wrapped cfg (n0 + int i)) [0 ..< k]"

text \<open>
  The sequence invariant of a session that started with sequence number \<open>n0\<close> and an empty
  trace: the header of the packet in progress holds the current sequence number, the octree
  packets transmitted so far carry \<open>n0\<close>, \<open>n0 + 1\<close>, ... (wrapped), and the current sequence
  number is the next one.
\<close>

definition inOrder :: "config \<Rightarrow> int \<Rightarrow> frame \<Rightarrow> bool" where
  "inOrder cfg n0 f \<longleftrightarrow>
     octreePacketSequence (node f) = sequenceNumber (node f) \<and>
     sequenceNumber (node f) = wrapped cfg (n0 + int (length (carriedSequence (trace f)))) \<and>
     carriedSequence (trace f) = numbering cfg n0 (length (carriedSequence (trace f)))"

section \<open>Example inputs\<close>

definition exampleConfig :: config where
  "exampleConfig =
     \<lparr>MAX_PACKET_SIZE = 1500, OCTREE_PACKET_HEADER_BYTES = 30,
      MAX_OCTREE_PACKET_DATA_SIZE = 1470, SECTION_SIZE_BYTES = 2, INTERVALS_PER_SECOND = 60,
      MINIMUM_ATTEMPT_MORE_PACKING = 42, REASONABLE_NUMBER_OF_PACKING_ATTEMPTS = 5,
      COMPRESS_PADDING = 15, LOW_RES_MOVING_ADJUST = 1, NO_BOUNDARY_ADJUST = 0,
      packetsPerClientPerInterval = 1000, hasSpecialPacketToSend = False,
      specialPacketBytes = 0, root = 0, rootLastChanged = 0, usecTimestampNow = 7,
      compressContent = (\<lambda>b. b), SEQUENCE_BITS = 16\<rparr>"

definition exampleStats :: OctreeSceneStats where
  "exampleStats =
     \<lparr>isStarted = False, isReadyToSend = False, statsMessageLength = 100,
      statsPackets = 0, statsBytes = 0\<rparr>"

text \<open>
  A session of a client that asked for 20 packets per second, with a fresh uncompressed
  packet of sequence number 5, an empty bag and an unchanged view.
\<close>

definition exampleNode :: OctreeQueryNode where
  "exampleNode =
     \<lparr>isShuttingDown = False, wantColor = True, wantCompression = False, wantDelta = False,
      wantLowResMoving = False, wantOcclusionCulling = False, maxOctreePacketsPerSecond = 20,
      boundaryLevelAdjust = 0, viewSent = False, octreePacket = [], octreePacketSequence = 5,
      octreePacketAvailableBytes = 1470, octreePacketWaiting = False, lastOctreePacket = [9],
      duplicatePacketCount = 0, currentViewFrustum = 1, lastKnownViewFrustum = 0,
      lastTimeBagEmpty = 0, viewFrustumChanging = False,
      viewFrustumJustStoppedChanging = False, currentPacketIsColor = True,
      currentPacketIsCompressed = False, lodChanged = False, moveShouldDump = False,
      sequenceNumber = 5, lastRootTimestamp = 0, nodeBag = [], map_coverage = [],
      stats = exampleStats\<rparr>"

definition exampleFrame :: frame where
  "exampleFrame =
     \<lparr>node = exampleNode,
      packetData = \<lparr>enableCompression = False, targetSize = 1470, content = []\<rparr>,
      totalBytes = 0, totalWastedBytes = 0, totalPackets = 0, trace = [],
      trueBytesSent = 0, truePacketsSent = 0, packetsSentThisInterval = 0,
      somethingToSend = True, extraPackingAttempts = 0, completedScene = False\<rparr>"

text \<open>A waiting packet with three bytes of payload that repeats the last sent packet.\<close>

definition duplicateFrame :: frame where
  "duplicateFrame =
     exampleFrame\<lparr>node := exampleNode\<lparr>octreePacket := [1, 2, 3], lastOctreePacket := [1, 2, 3],
       octreePacketAvailableBytes := 1467, octreePacketWaiting := True\<rparr>\<rparr>"

text \<open>The same duplicate while a statistics message is ready.\<close>

definition duplicateStatsFrame :: frame where
  "duplicateStatsFrame =
     exampleFrame\<lparr>node := exampleNode\<lparr>octreePacket := [1, 2, 3], lastOctreePacket := [1, 2, 3],
       octreePacketAvailableBytes := 1467, octreePacketWaiting := True,
       stats := exampleStats\<lparr>isReadyToSend := True\<rparr>\<rparr>\<rparr>"

text \<open>A ready statistics message and an octree packet without payload.\<close>

definition statsOnlyFrame :: frame where
  "statsOnlyFrame =
     exampleFrame\<lparr>node := exampleNode\<lparr>stats := exampleStats\<lparr>isReadyToSend := True\<rparr>\<rparr>\<rparr>"

text \<open>
  A ready statistics message and an octree packet without payload in a session that has not
  sent a payload yet: the empty packet repeats the empty last packet.
\<close>

definition quietStatsFrame :: frame where
  "quietStatsFrame =
     exampleFrame\<lparr>node := exampleNode\<lparr>lastOctreePacket := [],
       stats := exampleStats\<lparr>isReadyToSend := True\<rparr>\<rparr>\<rparr>"

text \<open>
  A ready statistics message in a session whose sequence number is the largest one that
  fits into 16 bits.
\<close>

definition wrapFrame :: frame where
  "wrapFrame =
     exampleFrame\<lparr>node := exampleNode\<lparr>sequenceNumber := 65535, octreePacketSequence := 65535,
       stats := exampleStats\<lparr>isReadyToSend := True\<rparr>\<rparr>\<rparr>"

text \<open>Answers of the encoder: three bytes with nothing left to visit, and a node that did not fit.\<close>

definition exampleAnswer :: encoded where
  "exampleAnswer = \<lparr>appended = [1, 2, 3], stopReason = NULL_NODE, requeued = [], covered = []\<rparr>"

definition didntFitAnswer :: encoded where
  "didntFitAnswer = \<lparr>appended = [], stopReason = DIDNT_FIT, requeued = [], covered = []\<rparr>"

text \<open>The run of the distributor on the example session, with an unchanged view.\<close>

definition exampleRun :: "(int \<times> frame) option" where
  "exampleRun = packetDistributor exampleConfig [exampleAnswer] False exampleFrame"

definition exampleParams :: EncodeBitstreamParams where
  "exampleParams =
     \<lparr>viewFrustum = 1, includeColor = True, includeExistsBits = True, chopLevels = 0,
      deltaViewFrustum = False, lastViewFrustum = None, wantOcclusionCullingP = False,
      usesCoverageMap = False, boundaryLevelAdjustP = 0, lastViewFrustumSent = 7,
      forceSendScene = False\<rparr>"

text \<open>A server that has a special packet for this client.\<close>

definition specialConfig :: config where
  "specialConfig = exampleConfig\<lparr>hasSpecialPacketToSend := True, specialPacketBytes := 10\<rparr>"

text \<open>
  The end of a scene in a compressed session: the bag is empty, the statistics of the scene
  are running, and a waiting packet holds 1400 bytes of payload in one section.
\<close>

definition sceneEndFrame :: frame where
  "sceneEndFrame =
     exampleFrame\<lparr>node := exampleNode\<lparr>wantCompression := True,
         currentPacketIsCompressed := True, octreePacket := replicate 1400 8,
         octreePacketAvailableBytes := 68, octreePacketWaiting := True,
         stats := exampleStats\<lparr>isStarted := True\<rparr>\<rparr>,
       packetData := \<lparr>enableCompression = True, targetSize = 51, content = []\<rparr>\<rparr>"

definition sceneEndRun :: "(int \<times> frame) option" where
  "sceneEndRun = packetDistributor specialConfig [] False sceneEndFrame"

text \<open>A client in delta mode whose view just stopped changing.\<close>

definition deltaNode :: OctreeQueryNode where
  "deltaNode = exampleNode\<lparr>wantDelta := True, viewFrustumJustStoppedChanging := True\<rparr>"

text \<open>Two elements in the bag and one in the coverage map; no move-triggered dump, no LOD change.\<close>

definition movedFrame :: frame where
  "movedFrame = exampleFrame\<lparr>node := exampleNode\<lparr>nodeBag := [3, 4], map_coverage := [7]\<rparr>\<rparr>"

text \<open>A compressed session whose assembler is empty and packs more into a started packet.\<close>

definition packMoreFrame :: frame where
  "packMoreFrame =
     exampleFrame\<lparr>node := exampleNode\<lparr>wantCompression := True, currentPacketIsCompressed := True,
         nodeBag := [4], octreePacket := [5, 5, 5], octreePacketAvailableBytes := 1465,
         octreePacketWaiting := True\<rparr>,
       packetData := \<lparr>enableCompression = True, targetSize = 1448, content = []\<rparr>\<rparr>"

text \<open>
  A compressed session of a client that asked for 120 packets per second, with an empty bag,
  an unchanged view and a waiting packet that holds three bytes of payload.
\<close>

definition pendingFrame :: frame where
  "pendingFrame =
     exampleFrame\<lparr>node := exampleNode\<lparr>wantCompression := True, currentPacketIsCompressed := True,
         maxOctreePacketsPerSecond := 120, octreePacket := [5, 5, 5],
         octreePacketAvailableBytes := 1465, octreePacketWaiting := True\<rparr>,
       packetData := \<lparr>enableCompression = True, targetSize = 1448, content = []\<rparr>\<rparr>"

definition pendingRun :: "(int \<times> frame) option" where
  "pendingRun = packetDistributor exampleConfig [exampleAnswer] False pendingFrame"

definition shutdownFrame :: frame where
  "shutdownFrame = exampleFrame\<lparr>node := exampleNode\<lparr>isShuttingDown := True\<rparr>\<rparr>"

lemmas example_defs = exampleConfig_def exampleStats_def exampleNode_def exampleFrame_def

section \<open>Properties of the sender\<close>

lemmas send_defs = handlePacketSend_def shouldSuppressDuplicatePacket_def resetOctreePacket_def
  sendWithStats_def sendWaiting_def trackSent_def incrementSequenceNumber_def packetSent_def
  markAsSent_def Let_def

lemma handlePacketSend_keeps [simp]:
  "isShuttingDown (node (snd (handlePacketSend cfg f))) = isShuttingDown (node f)"
  "nodeBag (node (snd (handlePacketSend cfg f))) = nodeBag (node f)"
  "map_coverage (node (snd (handlePacketSend cfg f))) = map_coverage (node f)"
  "currentViewFrustum (node (snd (handlePacketSend cfg f))) = currentViewFrustum (node f)"
  "lastKnownViewFrustum (node (snd (handlePacketSend cfg f))) = lastKnownViewFrustum (node f)"
  "viewSent (node (snd (handlePacketSend cfg f))) = viewSent (node f)"
  "maxOctreePacketsPerSecond (node (snd (handlePacketSend cfg f))) =
     maxOctreePacketsPerSecond (node f)"
  "wantCompression (node (snd (handlePacketSend cfg f))) = wantCompression (node f)"
  "packetData (snd (handlePacketSend cfg f)) = packetData f"
  "packetsSentThisInterval (snd (handlePacketSend cfg f)) = packetsSentThisInterval f"
  "somethingToSend (snd (handlePacketSend cfg f)) = somethingToSend f"
  "extraPackingAttempts (snd (handlePacketSend cfg f)) = extraPackingAttempts f"
  "completedScene (snd (handlePacketSend cfg f)) = completedScene f"
  by (simp_all add: send_defs split: prod.splits)

lemma handlePacketSend_count:
  "0 \<le> fst (handlePacketSend cfg f) \<and> fst (handlePacketSend cfg f) \<le> 2"
  by (simp add: send_defs split: prod.splits)

lemma handlePacketSend_true:
  "truePacketsSent (snd (handlePacketSend cfg f)) =
     truePacketsSent f + fst (handlePacketSend cfg f)"
  by (simp add: send_defs split: prod.splits)

lemma handlePacketSend_trace:
  "\<exists>es. trace (snd (handlePacketSend cfg f)) = trace f @ es \<and> list_all isDatagram es
     \<and> int (length es) = fst (handlePacketSend cfg f)"
  by (simp add: send_defs split: prod.splits)

text \<open>
  Claim C4. When a call of \<^verbatim>\<open>handlePacketSend\<close> reaches the duplicate check and
  \<^verbatim>\<open>shouldSuppressDuplicatePacket\<close> answers true, the call returns 0, hands no datagram to
  the transport (the trace and all packet counters are unchanged), and leaves the session with
  the packet reset: no payload, not waiting.
\<close>

theorem handlePacketSend_suppresses_duplicate:
  assumes "\<not> isShuttingDown (node f)"
    and "fst (shouldSuppressDuplicatePacket (node f))"
  shows "fst (handlePacketSend cfg f) = 0 \<and>
         trace (snd (handlePacketSend cfg f)) = trace f \<and>
         totalPackets (snd (handlePacketSend cfg f)) = totalPackets f \<and>
         truePacketsSent (snd (handlePacketSend cfg f)) = truePacketsSent f \<and>
         node (snd (handlePacketSend cfg f)) =
           resetOctreePacket cfg (snd (shouldSuppressDuplicatePacket (node f))) \<and>
         octreePacket (node (snd (handlePacketSend cfg f))) = [] \<and>
         \<not> isPacketWaiting (node (snd (handlePacketSend cfg f)))"
  using assms
  by (auto simp: handlePacketSend_def resetOctreePacket_def shouldSuppressDuplicatePacket_def
      isPacketWaiting_def split: prod.splits if_splits)

theorem handlePacketSend_suppresses_duplicate_witness:
  "\<not> isShuttingDown (node duplicateFrame) \<and>
   fst (shouldSuppressDuplicatePacket (node duplicateFrame)) \<and>
   isPacketWaiting (node duplicateFrame) \<and>
   fst (handlePacketSend exampleConfig duplicateFrame) = 0 \<and>
   trace (snd (handlePacketSend exampleConfig duplicateFrame)) = trace duplicateFrame \<and>
   octreePacket (node (snd (handlePacketSend exampleConfig duplicateFrame))) = [] \<and>
   \<not> isPacketWaiting (node (snd (handlePacketSend exampleConfig duplicateFrame)))"
proof -
  have running: "\<not> isShuttingDown (node duplicateFrame)"
    by (simp add: duplicateFrame_def example_defs)
  have suppress: "fst (shouldSuppressDuplicatePacket (node duplicateFrame))"
    by (simp add: duplicateFrame_def example_defs shouldSuppressDuplicatePacket_def
        packetIsDuplicate_def)
  have waiting: "isPacketWaiting (node duplicateFrame)"
    by (simp add: duplicateFrame_def example_defs isPacketWaiting_def)
  show ?thesis
    using handlePacketSend_suppresses_duplicate [OF running suppress, of exampleConfig]
      running suppress waiting
    by blast
qed

text \<open>
  Claim C10. The duplicate check comes before the check for a ready statistics message: when
  \<^verbatim>\<open>shouldSuppressDuplicatePacket\<close> answers true, the call returns 0 with nothing handed to
  the transport, and the statistics of the session are untouched; in particular a message that
  was ready is still ready, so it was neither sent nor marked as sent.
\<close>

theorem handlePacketSend_suppression_precedes_stats:
  assumes "\<not> isShuttingDown (node f)"
    and "fst (shouldSuppressDuplicatePacket (node f))"
  shows "fst (handlePacketSend cfg f) = 0 \<and>
         filter isDatagram (during f (snd (handlePacketSend cfg f))) = [] \<and>
         stats (node (snd (handlePacketSend cfg f))) = stats (node f) \<and>
         isReadyToSend (stats (node (snd (handlePacketSend cfg f)))) =
           isReadyToSend (stats (node f))"
  using assms
  by (auto simp: handlePacketSend_def resetOctreePacket_def shouldSuppressDuplicatePacket_def
      during_def split: prod.splits if_splits)

theorem handlePacketSend_suppression_precedes_stats_witness:
  "\<not> isShuttingDown (node duplicateStatsFrame) \<and>
   fst (shouldSuppressDuplicatePacket (node duplicateStatsFrame)) \<and>
   isReadyToSend (stats (node duplicateStatsFrame)) \<and>
   fst (handlePacketSend exampleConfig duplicateStatsFrame) = 0 \<and>
   filter isDatagram
     (during duplicateStatsFrame (snd (handlePacketSend exampleConfig duplicateStatsFrame))) = [] \<and>
   isReadyToSend (stats (node (snd (handlePacketSend exampleConfig duplicateStatsFrame))))"
proof -
  have running: "\<not> isShuttingDown (node duplicateStatsFrame)"
    by (simp add: duplicateStatsFrame_def example_defs)
  have suppress: "fst (shouldSuppressDuplicatePacket (node duplicateStatsFrame))"
    by (simp add: duplicateStatsFrame_def example_defs shouldSuppressDuplicatePacket_def
        packetIsDuplicate_def)
  have ready: "isReadyToSend (stats (node duplicateStatsFrame))"
    by (simp add: duplicateStatsFrame_def example_defs)
  show ?thesis
    using handlePacketSend_suppression_precedes_stats [OF running suppress, of exampleConfig]
      running suppress ready
    by simp
qed

text \<open>
  Claim C9, as amended. In a call of \<^verbatim>\<open>handlePacketSend\<close> that reaches the statistics
  check (the session is not shutting down and the packet was not suppressed as a duplicate)
  with a statistics message ready, datagrams are handed to the transport (the piggybacked
  datagram, or the statistics datagram followed by the octree packet), the sequence number
  advances by one (wrapping in its fixed width), the packet is reset and the message is
  marked as sent, whether or not a packet was waiting. In any call with no statistics message
  ready and no packet waiting, nothing is transmitted and the sequence number stays. When
  none is ready and a packet is waiting, a call that reaches the check transmits exactly that
  packet. A call for a session that is shutting down, or one that suppresses the packet as a
  duplicate, transmits nothing and leaves the sequence number and the statistics message as
  they are, ready or not.
\<close>

theorem handlePacketSend_stats_ready_sends:
  "(\<not> isShuttingDown (node f) \<and> \<not> fst (shouldSuppressDuplicatePacket (node f)) \<and>
    isReadyToSend (stats (node f)) \<longrightarrow>
      fst (handlePacketSend cfg f) =
        (if getPacketLength cfg (node f) + statsMessageLength (stats (node f))
              < MAX_PACKET_SIZE cfg
         then 1 else 2) \<and>
      during f (snd (handlePacketSend cfg f)) =
        (if getPacketLength cfg (node f) + statsMessageLength (stats (node f))
              < MAX_PACKET_SIZE cfg
         then [PiggybackDatagram (statsMessageLength (stats (node f)))
                 (octreePacketSequence (node f)) (octreePacket (node f))]
         else [StatsDatagram (statsMessageLength (stats (node f))),
               OctreeDatagram (octreePacketSequence (node f)) (octreePacket (node f))]) \<and>
      sequenceNumber (node (snd (handlePacketSend cfg f))) =
        (sequenceNumber (node f) + 1) mod 2 ^ SEQUENCE_BITS cfg \<and>
      octreePacket (node (snd (handlePacketSend cfg f))) = [] \<and>
      \<not> isPacketWaiting (node (snd (handlePacketSend cfg f))) \<and>
      \<not> isReadyToSend (stats (node (snd (handlePacketSend cfg f))))) \<and>
   (\<not> isReadyToSend (stats (node f)) \<and> \<not> isPacketWaiting (node f) \<longrightarrow>
      fst (handlePacketSend cfg f) = 0 \<and>
      during f (snd (handlePacketSend cfg f)) = [] \<and>
      sequenceNumber (node (snd (handlePacketSend cfg f))) = sequenceNumber (node f)) \<and>
   (\<not> isShuttingDown (node f) \<and> \<not> fst (shouldSuppressDuplicatePacket (node f)) \<and>
    \<not> isReadyToSend (stats (node f)) \<and> isPacketWaiting (node f) \<longrightarrow>
      fst (handlePacketSend cfg f) = 1 \<and>
      during f (snd (handlePacketSend cfg f)) =
        [OctreeDatagram (octreePacketSequence (node f)) (octreePacket (node f))]) \<and>
   (isShuttingDown (node f) \<or> fst (shouldSuppressDuplicatePacket (node f)) \<longrightarrow>
      fst (handlePacketSend cfg f) = 0 \<and>
      during f (snd (handlePacketSend cfg f)) = [] \<and>
      sequenceNumber (node (snd (handlePacketSend cfg f))) = sequenceNumber (node f) \<and>
      stats (node (snd (handlePacketSend cfg f))) = stats (node f))"
  by (auto simp: send_defs during_def isPacketWaiting_def getPacketLength_def
      split: prod.splits if_splits)

theorem handlePacketSend_stats_ready_sends_witness:
  "\<not> isShuttingDown (node statsOnlyFrame) \<and>
   \<not> fst (shouldSuppressDuplicatePacket (node statsOnlyFrame)) \<and>
   isReadyToSend (stats (node statsOnlyFrame)) \<and>
   \<not> isPacketWaiting (node statsOnlyFrame) \<and>
   fst (handlePacketSend exampleConfig statsOnlyFrame) = 1 \<and>
   during statsOnlyFrame (snd (handlePacketSend exampleConfig statsOnlyFrame)) =
     [PiggybackDatagram 100 5 []] \<and>
   sequenceNumber (node (snd (handlePacketSend exampleConfig statsOnlyFrame))) = 6 \<and>
   \<not> isReadyToSend (stats (node exampleFrame)) \<and> \<not> isPacketWaiting (node exampleFrame) \<and>
   fst (handlePacketSend exampleConfig exampleFrame) = 0 \<and>
   during exampleFrame (snd (handlePacketSend exampleConfig exampleFrame)) = [] \<and>
   fst (shouldSuppressDuplicatePacket (node quietStatsFrame)) \<and>
   fst (handlePacketSend exampleConfig quietStatsFrame) = 0 \<and>
   stats (node (snd (handlePacketSend exampleConfig quietStatsFrame))) =
     stats (node quietStatsFrame)"
proof -
  have running: "\<not> isShuttingDown (node statsOnlyFrame)"
    by (simp add: statsOnlyFrame_def example_defs)
  have sending: "\<not> fst (shouldSuppressDuplicatePacket (node statsOnlyFrame))"
    by (simp add: statsOnlyFrame_def example_defs shouldSuppressDuplicatePacket_def
        packetIsDuplicate_def)
  have suppress: "fst (shouldSuppressDuplicatePacket (node quietStatsFrame))"
    by (simp add: quietStatsFrame_def example_defs shouldSuppressDuplicatePacket_def
        packetIsDuplicate_def)
  have ready: "isReadyToSend (stats (node statsOnlyFrame))"
    by (simp add: statsOnlyFrame_def example_defs)
  have idle: "\<not> isPacketWaiting (node statsOnlyFrame)"
    "\<not> isReadyToSend (stats (node exampleFrame))" "\<not> isPacketWaiting (node exampleFrame)"
    by (simp_all add: statsOnlyFrame_def example_defs isPacketWaiting_def)
  have numbers: "getPacketLength exampleConfig (node statsOnlyFrame) = 30"
    "statsMessageLength (stats (node statsOnlyFrame)) = 100"
    "MAX_PACKET_SIZE exampleConfig = 1500" "SEQUENCE_BITS exampleConfig = 16"
    "octreePacketSequence (node statsOnlyFrame) = 5"
    "sequenceNumber (node statsOnlyFrame) = 5"
    "octreePacket (node statsOnlyFrame) = []"
    by (simp_all add: statsOnlyFrame_def example_defs getPacketLength_def)
  show ?thesis
    using handlePacketSend_stats_ready_sends [of statsOnlyFrame exampleConfig]
      handlePacketSend_stats_ready_sends [of exampleFrame exampleConfig]
      handlePacketSend_stats_ready_sends [of quietStatsFrame exampleConfig]
      running sending suppress ready idle numbers
    by simp
qed

text \<open>
  The claim as stated fails: a statistics message is ready and the octree packet holds no
  payload, but the empty packet repeats the last one while the view is not changing, so the
  call is suppressed: nothing is transmitted, the sequence number stays, and the message is
  still ready.
\<close>

theorem handlePacketSend_stats_ready_counterexample:
  "isReadyToSend (stats (node quietStatsFrame)) \<and>
   \<not> isPacketWaiting (node quietStatsFrame) \<and>
   \<not> isShuttingDown (node quietStatsFrame) \<and>
   fst (handlePacketSend exampleConfig quietStatsFrame) = 0 \<and>
   during quietStatsFrame (snd (handlePacketSend exampleConfig quietStatsFrame)) = [] \<and>
   sequenceNumber (node (snd (handlePacketSend exampleConfig quietStatsFrame))) =
     sequenceNumber (node quietStatsFrame) \<and>
   isReadyToSend (stats (node (snd (handlePacketSend exampleConfig quietStatsFrame))))"
  by (simp add: quietStatsFrame_def example_defs send_defs packetIsDuplicate_def during_def
      isPacketWaiting_def)

section \<open>The steps of the distributor\<close>

lemma datagram_loopEvent: "isDatagram e \<Longrightarrow> loopEvent full e"
  by (cases e) simp_all

lemma datagrams_loopEvents: "list_all isDatagram es \<Longrightarrow> list_all (loopEvent full) es"
  by (induction es) (simp_all add: datagram_loopEvent)

lemma filter_all: "list_all P es \<Longrightarrow> filter P es = es"
  by (induction es) simp_all

lemma progress_refl: "0 \<le> k \<Longrightarrow> progress allowed k f f"
  by (simp add: progress_def)

lemma progress_trans:
  assumes "progress allowed a f g" and "progress allowed b g h"
  shows "progress allowed (a + b) f h"
proof -
  from assms(1) obtain es where es: "trace g = trace f @ es" "list_all allowed es"
    "packetsSentThisInterval g = packetsSentThisInterval f + int (length (filter isDatagram es))"
    "truePacketsSent g = truePacketsSent f + int (length (filter isDatagram es))"
    "int (length (filter isDatagram es)) \<le> a"
    unfolding progress_def by blast
  from assms(2) obtain fs where fs: "trace h = trace g @ fs" "list_all allowed fs"
    "packetsSentThisInterval h = packetsSentThisInterval g + int (length (filter isDatagram fs))"
    "truePacketsSent h = truePacketsSent g + int (length (filter isDatagram fs))"
    "int (length (filter isDatagram fs)) \<le> b"
    unfolding progress_def by blast
  show ?thesis
    unfolding progress_def
    by (rule exI [of _ "es @ fs"]) (use es fs in simp)
qed

lemma progress_mono: "progress allowed a f g \<Longrightarrow> a \<le> b \<Longrightarrow> progress allowed b f g"
  unfolding progress_def by force

lemma progress_weaken: "progress isDatagram k f g \<Longrightarrow> progress (loopEvent full) k f g"
  unfolding progress_def using datagrams_loopEvents by blast

lemma progress_update [simp]:
  "progress allowed k f (g\<lparr>node := n\<rparr>) = progress allowed k f g"
  "progress allowed k f (g\<lparr>packetData := p\<rparr>) = progress allowed k f g"
  "progress allowed k f (g\<lparr>extraPackingAttempts := x\<rparr>) = progress allowed k f g"
  "progress allowed k f (g\<lparr>completedScene := c\<rparr>) = progress allowed k f g"
  "progress allowed k f (g\<lparr>somethingToSend := s\<rparr>) = progress allowed k f g"
  "progress allowed k (f\<lparr>node := n\<rparr>) g = progress allowed k f g"
  "progress allowed k (f\<lparr>packetData := p\<rparr>) g = progress allowed k f g"
  "progress allowed k (f\<lparr>extraPackingAttempts := x\<rparr>) g = progress allowed k f g"
  "progress allowed k (f\<lparr>completedScene := c\<rparr>) g = progress allowed k f g"
  "progress allowed k (f\<lparr>somethingToSend := s\<rparr>) g = progress allowed k f g"
  by (simp_all add: progress_def)

lemma fixed_update [simp]:
  "fixed (f\<lparr>packetData := p\<rparr>) = fixed f"
  "fixed (f\<lparr>extraPackingAttempts := x\<rparr>) = fixed f"
  "fixed (f\<lparr>completedScene := c\<rparr>) = fixed f"
  "fixed (f\<lparr>somethingToSend := s\<rparr>) = fixed f"
  "fixed (f\<lparr>packetsSentThisInterval := i\<rparr>) = fixed f"
  "fixed (f\<lparr>truePacketsSent := i\<rparr>) = fixed f"
  "fixed (f\<lparr>trueBytesSent := i\<rparr>) = fixed f"
  "fixed (f\<lparr>trace := t\<rparr>) = fixed f"
  by (simp_all add: fixed_def)

lemma fixed_handlePacketSend [simp]: "fixed (snd (handlePacketSend cfg f)) = fixed f"
  by (simp add: fixed_def)

lemma sendAndCount_keeps [simp]:
  "nodeBag (node (sendAndCount cfg f)) = nodeBag (node f)"
  "map_coverage (node (sendAndCount cfg f)) = map_coverage (node f)"
  "lastKnownViewFrustum (node (sendAndCount cfg f)) = lastKnownViewFrustum (node f)"
  "viewSent (node (sendAndCount cfg f)) = viewSent (node f)"
  "wantCompression (node (sendAndCount cfg f)) = wantCompression (node f)"
  "packetData (sendAndCount cfg f) = packetData f"
  "somethingToSend (sendAndCount cfg f) = somethingToSend f"
  "extraPackingAttempts (sendAndCount cfg f) = extraPackingAttempts f"
  "completedScene (sendAndCount cfg f) = completedScene f"
  "fixed (sendAndCount cfg f) = fixed f"
  by (simp_all add: sendAndCount_def split_beta)

lemma sendAndCount_progress: "progress isDatagram 2 f (sendAndCount cfg f)"
proof -
  obtain es where es: "trace (snd (handlePacketSend cfg f)) = trace f @ es"
    "list_all isDatagram es" "int (length es) = fst (handlePacketSend cfg f)"
    using handlePacketSend_trace by blast
  show ?thesis
    unfolding progress_def
    by (rule exI [of _ es])
      (use es handlePacketSend_count [of cfg f] handlePacketSend_true [of cfg f]
        in \<open>simp add: sendAndCount_def split_beta filter_all\<close>)
qed

lemma progress_count:
  assumes "progress allowed k f g"
    and "packetsSentThisInterval g \<le> packetsSentThisInterval f + j"
  shows "progress allowed j f g"
  using assms unfolding progress_def by auto

text \<open>
  A call that sends two datagrams sends the statistics message and marks it as sent, and a
  call that finds no statistics message ready sends at most one datagram.
\<close>

lemma handlePacketSend_stats_sent:
  "fst (handlePacketSend cfg f) = 2 \<Longrightarrow>
     \<not> isReadyToSend (stats (node (snd (handlePacketSend cfg f))))"
  by (simp add: send_defs split: prod.splits if_splits)

lemma handlePacketSend_single:
  "\<not> isReadyToSend (stats (node f)) \<Longrightarrow> fst (handlePacketSend cfg f) \<le> 1"
  by (simp add: send_defs split: prod.splits if_splits)

lemma sendAndCount_count:
  "packetsSentThisInterval (sendAndCount cfg f) =
     packetsSentThisInterval f + fst (handlePacketSend cfg f)"
  "stats (node (sendAndCount cfg f)) = stats (node (snd (handlePacketSend cfg f)))"
  by (simp_all add: sendAndCount_def split_beta)

lemma sendAndCount_twice:
  assumes "stats (node g) = stats (node (sendAndCount cfg f))"
    and "packetsSentThisInterval g = packetsSentThisInterval (sendAndCount cfg f)"
  shows "packetsSentThisInterval (sendAndCount cfg g) \<le> packetsSentThisInterval f + 3"
proof (cases "fst (handlePacketSend cfg f) = 2")
  case True
  then have "\<not> isReadyToSend (stats (node g))"
    using assms(1) handlePacketSend_stats_sent [of cfg f] by (simp add: sendAndCount_count)
  then have "fst (handlePacketSend cfg g) \<le> 1"
    by (rule handlePacketSend_single)
  with True assms(2) show ?thesis
    by (simp add: sendAndCount_count)
next
  case False
  with handlePacketSend_count [of cfg f] have "fst (handlePacketSend cfg f) \<le> 1"
    by simp
  with handlePacketSend_count [of cfg g] assms(2) show ?thesis
    by (simp add: sendAndCount_count)
qed

lemma writeToPacket_keeps [simp]:
  "isShuttingDown (writeToPacket cfg b nd) = isShuttingDown nd"
  "currentViewFrustum (writeToPacket cfg b nd) = currentViewFrustum nd"
  "maxOctreePacketsPerSecond (writeToPacket cfg b nd) = maxOctreePacketsPerSecond nd"
  "nodeBag (writeToPacket cfg b nd) = nodeBag nd"
  "map_coverage (writeToPacket cfg b nd) = map_coverage nd"
  "lastKnownViewFrustum (writeToPacket cfg b nd) = lastKnownViewFrustum nd"
  "viewSent (writeToPacket cfg b nd) = viewSent nd"
  "wantCompression (writeToPacket cfg b nd) = wantCompression nd"
  "sequenceNumber (writeToPacket cfg b nd) = sequenceNumber nd"
  "octreePacketSequence (writeToPacket cfg b nd) = octreePacketSequence nd"
  "stats (writeToPacket cfg b nd) = stats nd"
  by (simp_all add: writeToPacket_def Let_def)

lemma writeFinalized_keeps [simp]:
  "nodeBag (node (writeFinalized cfg f)) = nodeBag (node f)"
  "map_coverage (node (writeFinalized cfg f)) = map_coverage (node f)"
  "lastKnownViewFrustum (node (writeFinalized cfg f)) = lastKnownViewFrustum (node f)"
  "viewSent (node (writeFinalized cfg f)) = viewSent (node f)"
  "wantCompression (node (writeFinalized cfg f)) = wantCompression (node f)"
  "somethingToSend (writeFinalized cfg f) = somethingToSend f"
  "completedScene (writeFinalized cfg f) = completedScene f"
  "fixed (writeFinalized cfg f) = fixed f"
  by (simp_all add: writeFinalized_def Let_def fixed_def)
    (use sendAndCount_keeps(10) [unfolded fixed_def] in \<open>simp_all\<close>)

lemma writeFinalized_progress: "progress isDatagram 2 f (writeFinalized cfg f)"
  by (simp add: writeFinalized_def Let_def sendAndCount_progress progress_refl)

lemma packStep_keeps [simp]:
  "nodeBag (node (packStep cfg cyc f)) = nodeBag (node f)"
  "map_coverage (node (packStep cfg cyc f)) = map_coverage (node f)"
  "lastKnownViewFrustum (node (packStep cfg cyc f)) = lastKnownViewFrustum (node f)"
  "viewSent (node (packStep cfg cyc f)) = viewSent (node f)"
  "somethingToSend (packStep cfg cyc f) = somethingToSend f"
  "completedScene (packStep cfg cyc f) = completedScene f"
  "fixed (packStep cfg cyc f) = fixed f"
  by (simp_all add: packStep_def Let_def)

lemma writeFinalized_count:
  "(packetsSentThisInterval (writeFinalized cfg f) = packetsSentThisInterval f \<and>
    stats (node (writeFinalized cfg f)) = stats (node f)) \<or>
   (packetsSentThisInterval (writeFinalized cfg f) =
      packetsSentThisInterval (sendAndCount cfg f) \<and>
    stats (node (writeFinalized cfg f)) = stats (node (sendAndCount cfg f)))"
  by (simp add: writeFinalized_def Let_def)

text \<open>
  One pass through lines 464-514 calls \<^verbatim>\<open>handlePacketSend\<close> at most twice, and the two calls
  send at most three datagrams: the first one marks a statistics message it sent as sent.
\<close>

lemma packStep_count:
  "packetsSentThisInterval (packStep cfg cyc f) \<le> packetsSentThisInterval f + 3"
proof -
  let ?f1 = "writeFinalized cfg f"
  have sent: "packetsSentThisInterval (sendAndCount cfg ?f1) \<le> packetsSentThisInterval f + 3"
    using writeFinalized_count [of cfg f]
  proof
    assume "packetsSentThisInterval ?f1 = packetsSentThisInterval f \<and>
      stats (node ?f1) = stats (node f)"
    with handlePacketSend_count [of cfg ?f1] show ?thesis
      by (simp add: sendAndCount_count)
  next
    assume "packetsSentThisInterval ?f1 = packetsSentThisInterval (sendAndCount cfg f) \<and>
      stats (node ?f1) = stats (node (sendAndCount cfg f))"
    then show ?thesis
      using sendAndCount_twice [of ?f1 cfg f] by simp
  qed
  have kept: "packetsSentThisInterval ?f1 \<le> packetsSentThisInterval f + 3"
    using writeFinalized_count [of cfg f] handlePacketSend_count [of cfg f]
    by (auto simp: sendAndCount_count)
  from sent kept show ?thesis
    by (simp add: packStep_def Let_def)
qed

lemma packStep_progress: "progress isDatagram 3 f (packStep cfg cyc f)"
proof -
  have "progress isDatagram (2 + 2) f (sendAndCount cfg (writeFinalized cfg f))"
    by (rule progress_trans [OF writeFinalized_progress sendAndCount_progress])
  moreover have "progress isDatagram 4 f (writeFinalized cfg f)"
    by (rule progress_mono [OF writeFinalized_progress]) simp
  ultimately have "progress isDatagram 4 f (packStep cfg cyc f)"
    by (simp add: packStep_def Let_def)
  then show ?thesis
    by (rule progress_count) (rule packStep_count)
qed

lemma encodeStep_keeps [simp]:
  "somethingToSend (snd (encodeStep cfg cyc r subTree rest f)) = somethingToSend f"
  "fixed (snd (encodeStep cfg cyc r subTree rest f)) = fixed f"
  "lastKnownViewFrustum (node (snd (encodeStep cfg cyc r subTree rest f))) =
     lastKnownViewFrustum (node f)"
  "viewSent (node (snd (encodeStep cfg cyc r subTree rest f))) = viewSent (node f)"
  by (simp_all add: encodeStep_def Let_def fixed_def)

lemma encodeStep_trace:
  "trace (snd (encodeStep cfg cyc r subTree rest f)) =
     trace f @ [EncodeCall subTree (encodeParams cfg cyc (node f))]"
  "packetsSentThisInterval (snd (encodeStep cfg cyc r subTree rest f)) = packetsSentThisInterval f"
  "truePacketsSent (snd (encodeStep cfg cyc r subTree rest f)) = truePacketsSent f"
  by (simp_all add: encodeStep_def Let_def)

lemma encodeStep_progress:
  "progress (loopEvent (fullScene cyc)) 0 f (snd (encodeStep cfg cyc r subTree rest f))"
  unfolding progress_def
  by (rule exI [of _ "[EncodeCall subTree (encodeParams cfg cyc (node f))]"])
    (simp add: encodeStep_trace encodeParams_def)

lemma iteration_keeps [simp]:
  "somethingToSend (iteration cfg cyc p) = somethingToSend (snd p)"
  "fixed (iteration cfg cyc p) = fixed (snd p)"
  "lastKnownViewFrustum (node (iteration cfg cyc p)) = lastKnownViewFrustum (node (snd p))"
  "viewSent (node (iteration cfg cyc p)) = viewSent (node (snd p))"
  "nodeBag (node (iteration cfg cyc p)) = nodeBag (node (snd p))"
  by (simp_all add: iteration_def)

lemma iteration_progress: "progress isDatagram 3 (snd p) (iteration cfg cyc p)"
  by (simp add: iteration_def packStep_progress progress_refl)

lemma iteration_encode_progress:
  "progress (loopEvent (fullScene cyc)) 3 f
     (iteration cfg cyc (encodeStep cfg cyc r subTree rest f))"
  using progress_trans [OF encodeStep_progress progress_weaken [OF iteration_progress]]
  by simp

lemma packingLoop_invariant:
  assumes "packingLoop cfg cyc m answers f = Some f'"
    and "P f"
    and "\<And>g r subTree rest.
           \<lbrakk>P g; somethingToSend g; packetsSentThisInterval g < m; \<not> isShuttingDown (node g);
            nodeBag (node g) = subTree # rest\<rbrakk>
           \<Longrightarrow> P (iteration cfg cyc (encodeStep cfg cyc r subTree rest g))"
    and "\<And>g. \<lbrakk>P g; somethingToSend g; packetsSentThisInterval g < m;
               \<not> isShuttingDown (node g); nodeBag (node g) = []\<rbrakk>
           \<Longrightarrow> P (iteration cfg cyc (False, g\<lparr>somethingToSend := False\<rparr>))"
  shows "P f'"
  using assms
proof (induction cfg cyc m answers f rule: packingLoop.induct)
  case (1 cfg cyc m answers f)
  note result = "1.prems"(1) and start = "1.prems"(2)
    and encode = "1.prems"(3) and drained = "1.prems"(4)
  show ?case
  proof (cases "somethingToSend f \<and> packetsSentThisInterval f < m \<and> \<not> isShuttingDown (node f)")
    case False
    with result start show ?thesis
      by (simp add: packingLoop.simps [of cfg cyc m _ f])
  next
    case go: True
    then have some: "somethingToSend f" and below: "packetsSentThisInterval f < m"
      and running: "\<not> isShuttingDown (node f)"
      by simp_all
    show ?thesis
    proof (cases "nodeBag (node f)")
      case Nil
      with go result have next_result:
        "packingLoop cfg cyc m answers (iteration cfg cyc (False, f\<lparr>somethingToSend := False\<rparr>))
           = Some f'"
        by (simp add: packingLoop.simps [of cfg cyc m _ f])
      have "P (iteration cfg cyc (False, f\<lparr>somethingToSend := False\<rparr>))"
        by (rule drained [OF start some below running Nil])
      then show ?thesis
        by (rule "1.IH"(1) [OF go Nil next_result _ encode drained])
    next
      case bag: (Cons subTree rest)
      show ?thesis
      proof (cases answers)
        case Nil
        with go bag result show ?thesis
          by (simp add: packingLoop.simps [of cfg cyc m _ f])
      next
        case (Cons r rs)
        with go bag result have next_result:
          "packingLoop cfg cyc m rs (iteration cfg cyc (encodeStep cfg cyc r subTree rest f))
             = Some f'"
          by (simp add: packingLoop.simps [of cfg cyc m _ f])
        have "P (iteration cfg cyc (encodeStep cfg cyc r subTree rest f))"
          by (rule encode [OF start some below running bag])
        then show ?thesis
          by (rule "1.IH"(2) [OF go bag Cons next_result _ encode drained])
      qed
    qed
  qed
qed

lemma packingLoop_fixed:
  assumes "packingLoop cfg cyc m answers f = Some f'"
  shows "fixed f' = fixed f"
  by (rule packingLoop_invariant [OF assms, where P = "\<lambda>g. fixed g = fixed f"]) simp_all

lemma packingLoop_progress:
  assumes "packingLoop cfg cyc m answers f = Some f'"
  shows "\<exists>k. progress (loopEvent (fullScene cyc)) k f f' \<and>
           packetsSentThisInterval f' \<le> max (packetsSentThisInterval f) (m + 2)"
proof (rule packingLoop_invariant [OF assms, where
      P = "\<lambda>g. \<exists>k. progress (loopEvent (fullScene cyc)) k f g \<and>
             packetsSentThisInterval g \<le> max (packetsSentThisInterval f) (m + 2)"])
  show "\<exists>k. progress (loopEvent (fullScene cyc)) k f f \<and>
          packetsSentThisInterval f \<le> max (packetsSentThisInterval f) (m + 2)"
    using progress_refl [of 0 "loopEvent (fullScene cyc)" f] by auto
next
  fix g r subTree rest
  assume P: "\<exists>k. progress (loopEvent (fullScene cyc)) k f g \<and>
          packetsSentThisInterval g \<le> max (packetsSentThisInterval f) (m + 2)"
    and below: "packetsSentThisInterval g < m"
  let ?g' = "iteration cfg cyc (encodeStep cfg cyc r subTree rest g)"
  from P obtain k where k: "progress (loopEvent (fullScene cyc)) k f g" by blast
  have step: "progress (loopEvent (fullScene cyc)) 3 g ?g'"
    by (rule iteration_encode_progress)
  then have "packetsSentThisInterval ?g' \<le> packetsSentThisInterval g + 3"
    unfolding progress_def by auto
  with below have "packetsSentThisInterval ?g' \<le> max (packetsSentThisInterval f) (m + 2)"
    by simp
  with progress_trans [OF k step]
  show "\<exists>k. progress (loopEvent (fullScene cyc)) k f ?g' \<and>
          packetsSentThisInterval ?g' \<le> max (packetsSentThisInterval f) (m + 2)"
    by blast
next
  fix g
  assume P: "\<exists>k. progress (loopEvent (fullScene cyc)) k f g \<and>
          packetsSentThisInterval g \<le> max (packetsSentThisInterval f) (m + 2)"
    and below: "packetsSentThisInterval g < m"
  let ?g' = "iteration cfg cyc (False, g\<lparr>somethingToSend := False\<rparr>)"
  from P obtain k where k: "progress (loopEvent (fullScene cyc)) k f g" by blast
  have "progress isDatagram 3 g ?g'"
    using iteration_progress [of "(False, g\<lparr>somethingToSend := False\<rparr>)" cfg cyc]
    by simp
  then have step: "progress (loopEvent (fullScene cyc)) 3 g ?g'"
    by (rule progress_weaken)
  then have "packetsSentThisInterval ?g' \<le> packetsSentThisInterval g + 3"
    unfolding progress_def by auto
  with below have "packetsSentThisInterval ?g' \<le> max (packetsSentThisInterval f) (m + 2)"
    by simp
  with progress_trans [OF k step]
  show "\<exists>k. progress (loopEvent (fullScene cyc)) k f ?g' \<and>
          packetsSentThisInterval ?g' \<le> max (packetsSentThisInterval f) (m + 2)"
    by blast
qed

lemma datagrams_filter:
  assumes "list_all isDatagram es"
  shows "filter isSnapshot es = []" and "filter isSpecial es = []"
    and "filter isEncodeCall es = []"
proof -
  have "\<not> isSnapshot e \<and> \<not> isSpecial e \<and> \<not> isEncodeCall e" if "isDatagram e" for e
    using that by (cases e) simp_all
  with assms show "filter isSnapshot es = []" and "filter isSpecial es = []"
    and "filter isEncodeCall es = []"
    by (induction es) simp_all
qed

lemma guarded_iff:
  "guarded m es \<longleftrightarrow>
     (\<forall>i < length es. isEncodeCall (es ! i) \<longrightarrow>
        int (length (filter isDatagram (take i es))) < m)"
  by (auto simp: guarded_def list_all_iff)

lemma guarded_append:
  assumes "guarded m es" and "filter isEncodeCall ds = []"
  shows "guarded m (es @ ds)"
proof -
  have "\<not> isEncodeCall (ds ! j)" if "j < length ds" for j
    using assms(2) that by (metis filter_empty_conv nth_mem)
  with assms(1) show ?thesis
    unfolding guarded_iff by (auto simp: nth_append)
qed

lemma guarded_encode:
  assumes "guarded m es" and "int (length (filter isDatagram es)) < m"
  shows "guarded m (es @ [e])"
  using assms unfolding guarded_iff
  by (auto simp: nth_append less_Suc_eq)

text \<open>
  The loop guard, read from the trace: when the loop starts with a trace \<open>t0 @ es0\<close> whose
  datagrams are the packets counted so far, every encoder call of the loop comes after fewer
  than \<open>m\<close> datagrams.
\<close>

lemma packingLoop_guarded:
  assumes loop: "packingLoop cfg cyc m answers f = Some f'"
    and start: "trace f = t0 @ es0"
      "packetsSentThisInterval f = int (length (filter isDatagram es0))"
      "guarded m es0"
  shows "\<exists>es. trace f' = t0 @ es \<and> guarded m es"
proof -
  let ?P = "\<lambda>g :: frame. \<exists>es. trace g = t0 @ es \<and>
      packetsSentThisInterval g = int (length (filter isDatagram es)) \<and> guarded m es"
  have step: "?P h" if "?P g" and "progress isDatagram k g h" for g h k
  proof -
    from that(1) obtain es where es: "trace g = t0 @ es"
      "packetsSentThisInterval g = int (length (filter isDatagram es))" "guarded m es"
      by blast
    from that(2) obtain ds where ds: "trace h = trace g @ ds" "list_all isDatagram ds"
      "packetsSentThisInterval h = packetsSentThisInterval g + int (length (filter isDatagram ds))"
      unfolding progress_def by blast
    have "guarded m (es @ ds)"
      by (rule guarded_append [OF es(3) datagrams_filter(3) [OF ds(2)]])
    with es ds show ?thesis
      by (intro exI [of _ "es @ ds"]) simp
  qed
  have "?P f'"
  proof (rule packingLoop_invariant [OF loop, where P = ?P])
    show "?P f"
      using start by blast
  next
    fix g r subTree rest
    assume P: "?P g" and below: "packetsSentThisInterval g < m"
    let ?e = "snd (encodeStep cfg cyc r subTree rest g)"
    from P obtain es where es: "trace g = t0 @ es"
      "packetsSentThisInterval g = int (length (filter isDatagram es))" "guarded m es"
      by blast
    have "guarded m (es @ [EncodeCall subTree (encodeParams cfg cyc (node g))])"
      by (rule guarded_encode [OF es(3)]) (use below es(2) in simp)
    with es have "?P ?e"
      by (intro exI [of _ "es @ [EncodeCall subTree (encodeParams cfg cyc (node g))]"])
        (simp add: encodeStep_trace)
    then show "?P (iteration cfg cyc (encodeStep cfg cyc r subTree rest g))"
      by (rule step) (rule iteration_progress)
  next
    fix g
    assume P: "?P g"
    have "progress isDatagram 3 g (iteration cfg cyc (False, g\<lparr>somethingToSend := False\<rparr>))"
      using iteration_progress [of "(False, g\<lparr>somethingToSend := False\<rparr>)" cfg cyc]
      by simp
    with P show "?P (iteration cfg cyc (False, g\<lparr>somethingToSend := False\<rparr>))"
      by (rule step)
  qed
  then show ?thesis
    by blast
qed

lemma resetOctreePacket_keeps [simp]:
  "isShuttingDown (resetOctreePacket cfg nd) = isShuttingDown nd"
  "currentViewFrustum (resetOctreePacket cfg nd) = currentViewFrustum nd"
  "maxOctreePacketsPerSecond (resetOctreePacket cfg nd) = maxOctreePacketsPerSecond nd"
  "nodeBag (resetOctreePacket cfg nd) = nodeBag nd"
  "map_coverage (resetOctreePacket cfg nd) = map_coverage nd"
  by (simp_all add: resetOctreePacket_def)

lemma flushOnFormatChange_keeps [simp]:
  "nodeBag (node (flushOnFormatChange cfg cyc f)) = nodeBag (node f)"
  "map_coverage (node (flushOnFormatChange cfg cyc f)) = map_coverage (node f)"
  "somethingToSend (flushOnFormatChange cfg cyc f) = somethingToSend f"
  "fixed (flushOnFormatChange cfg cyc f) = fixed f"
  by (simp_all add: flushOnFormatChange_def Let_def)
    (simp add: fixed_def)

lemma flushOnFormatChange_progress:
  "progress isDatagram 2 f (flushOnFormatChange cfg cyc f)"
  by (simp add: flushOnFormatChange_def Let_def sendAndCount_progress progress_refl)

lemma resetForViewChange_keeps [simp]:
  "isShuttingDown (resetForViewChange nd) = isShuttingDown nd"
  "currentViewFrustum (resetForViewChange nd) = currentViewFrustum nd"
  "maxOctreePacketsPerSecond (resetForViewChange nd) = maxOctreePacketsPerSecond nd"
  by (simp_all add: resetForViewChange_def map_erase_def dumpOutOfView_def)

lemma restartScene_keeps [simp]:
  "somethingToSend (restartScene cfg cyc f) = somethingToSend f"
  "fixed (restartScene cfg cyc f) = fixed f"
proof -
  show "somethingToSend (restartScene cfg cyc f) = somethingToSend f"
    by (simp add: restartScene_def sceneBoundary_def Let_def)
  have "fixed (sendAndCount cfg g) = fixed g" for g
    by simp
  then show "fixed (restartScene cfg cyc f) = fixed f"
    unfolding fixed_def by (simp add: restartScene_def sceneBoundary_def Let_def)
qed

lemma sendAndCount_progress_node:
  "progress isDatagram 2 f (sendAndCount cfg (f\<lparr>node := nd\<rparr>))"
  using sendAndCount_progress [of "f\<lparr>node := nd\<rparr>" cfg] by simp

lemma restartScene_progress: "progress isDatagram 2 f (restartScene cfg cyc f)"
  by (simp add: restartScene_def sceneBoundary_def Let_def progress_refl sendAndCount_progress_node)

lemma bag_insert_nonempty [simp]: "bag_insert e bag \<noteq> []"
  by (auto simp: bag_insert_def)

lemma restartScene_bag: "nodeBag (node (restartScene cfg cyc f)) \<noteq> []"
  by (simp add: restartScene_def sceneBoundary_def Let_def)

lemma beforeLoop_keeps [simp]:
  "somethingToSend (beforeLoop cfg changed f)"
  "fixed (beforeLoop cfg changed f) = fixed f"
  "nodeBag (node (beforeLoop cfg changed f)) \<noteq> []"
  by (simp_all add: beforeLoop_def Let_def restartScene_bag entry_def)

lemma beforeLoop_entry:
  "beforeLoop cfg changed f =
     restartScene cfg (startCycle (node f) changed)
       (flushOnFormatChange cfg (startCycle (node f) changed) (entry f))"
  by (simp add: beforeLoop_def Let_def entry_def)

lemma beforeLoop_progress: "progress isDatagram 4 (entry f) (beforeLoop cfg changed f)"
proof -
  have "progress isDatagram (2 + 2) (entry f) (beforeLoop cfg changed f)"
    unfolding beforeLoop_entry
    by (rule progress_trans [OF flushOnFormatChange_progress restartScene_progress])
  then show ?thesis by simp
qed

lemma fixedD:
  assumes "fixed g = fixed f"
  shows "isShuttingDown (node g) = isShuttingDown (node f)"
    and "currentViewFrustum (node g) = currentViewFrustum (node f)"
    and "maxOctreePacketsPerSecond (node g) = maxOctreePacketsPerSecond (node f)"
  using assms by (simp_all add: fixed_def)

lemma maxPacketsPerInterval_fixed:
  "fixed g = fixed f \<Longrightarrow> maxPacketsPerInterval cfg (node g) = maxPacketsPerInterval cfg (node f)"
  by (simp add: maxPacketsPerInterval_def fixed_def)

text \<open>The shape of a run of the distributor for a session that is not shutting down.\<close>

lemma packetDistributor_shape:
  assumes run: "packetDistributor cfg answers changed f = Some (n, f')"
    and running: "\<not> isShuttingDown (node f)"
  shows "\<exists>f4 pre es.
           packingLoop cfg (startCycle (node f) changed)
             (maxPacketsPerInterval cfg (node f)) answers
             ((beforeLoop cfg changed f)\<lparr>extraPackingAttempts := 0, completedScene := False\<rparr>)
             = Some f4 \<and>
           f' = sceneSent (sendSpecial cfg f4) \<and> n = truePacketsSent f' \<and>
           fixed f4 = fixed f \<and>
           trace (beforeLoop cfg changed f) = trace f @ pre \<and> list_all isDatagram pre \<and>
           trace f4 = trace f @ pre @ es \<and>
           list_all (loopEvent (isFullScene (node f) changed)) es \<and>
           packetsSentThisInterval f4 = int (length (filter isDatagram (pre @ es))) \<and>
           truePacketsSent f4 = int (length (filter isDatagram (pre @ es))) \<and>
           packetsSentThisInterval f4 \<le> max 4 (maxPacketsPerInterval cfg (node f) + 2)"
proof -
  let ?cyc = "startCycle (node f) changed"
  let ?f2 = "beforeLoop cfg changed f"
  let ?f3 = "?f2\<lparr>extraPackingAttempts := 0, completedScene := False\<rparr>"
  let ?m = "maxPacketsPerInterval cfg (node f)"
  have full: "fullScene ?cyc = isFullScene (node f) changed"
    by (simp add: startCycle_def)
  have m: "maxPacketsPerInterval cfg (node ?f2) = ?m"
    by (rule maxPacketsPerInterval_fixed) simp
  from run running m obtain f4 where
    loop: "packingLoop cfg ?cyc ?m answers ?f3 = Some f4"
    and f': "f' = sceneSent (sendSpecial cfg f4)" and n: "n = truePacketsSent f'"
    by (auto simp: packetDistributor_def Let_def split: option.splits)
  have fixed4: "fixed f4 = fixed f"
    using packingLoop_fixed [OF loop] by simp
  from beforeLoop_progress [of f cfg changed] obtain pre where
    pre: "trace ?f2 = trace f @ pre" "list_all isDatagram pre"
    "packetsSentThisInterval ?f2 = int (length (filter isDatagram pre))"
    "truePacketsSent ?f2 = int (length (filter isDatagram pre))"
    "int (length (filter isDatagram pre)) \<le> 4"
    unfolding progress_def by (auto simp: entry_def)
  from packingLoop_progress [OF loop] obtain k es where
    es: "trace f4 = trace ?f3 @ es" "list_all (loopEvent (fullScene ?cyc)) es"
    "packetsSentThisInterval f4 =
       packetsSentThisInterval ?f3 + int (length (filter isDatagram es))"
    "truePacketsSent f4 = truePacketsSent ?f3 + int (length (filter isDatagram es))"
    and bound: "packetsSentThisInterval f4 \<le> max (packetsSentThisInterval ?f3) (?m + 2)"
    unfolding progress_def by blast
  have "packetsSentThisInterval f4 \<le> max 4 (?m + 2)"
    using bound pre(3,5) by simp
  moreover have "trace f4 = trace f @ pre @ es"
    "packetsSentThisInterval f4 = int (length (filter isDatagram (pre @ es)))"
    "truePacketsSent f4 = int (length (filter isDatagram (pre @ es)))"
    using es pre by simp_all
  ultimately show ?thesis
    using loop f' n fixed4 pre(1,2) es(2) full by auto
qed


lemma sendSpecial_keeps [simp]:
  "node (sendSpecial cfg f) = node f"
  "trace (sendSpecial cfg f) = trace f @ specialEvents cfg f"
  "truePacketsSent (sendSpecial cfg f) = truePacketsSent f + int (length (specialEvents cfg f))"
  by (simp_all add: sendSpecial_def specialEvents_def)

lemma sceneSent_keeps [simp]:
  "nodeBag (node (sceneSent f)) = nodeBag (node f)"
  "trace (sceneSent f) = trace f @ snapshotEvents f"
  "truePacketsSent (sceneSent f) = truePacketsSent f"
  by (simp_all add: sceneSent_def snapshotEvents_def map_erase_def setViewSent_def
      updateLastKnownViewFrustum_def)

lemma sceneSent_snapshot:
  assumes "nodeBag (node f) = []" and "\<not> isShuttingDown (node f)"
  shows "lastKnownViewFrustum (node (sceneSent f)) = currentViewFrustum (node f)"
    and "viewSent (node (sceneSent f))"
    and "map_coverage (node (sceneSent f)) = []"
  using assms
  by (simp_all add: sceneSent_def map_erase_def setViewSent_def updateLastKnownViewFrustum_def)

lemma loopEvents_filter:
  assumes "list_all (loopEvent full) es"
  shows "filter isSnapshot es = []" and "filter isSpecial es = []"
proof -
  have "\<not> isSnapshot e \<and> \<not> isSpecial e" if "loopEvent full e" for e
    using that by (cases e) simp_all
  with assms show "filter isSnapshot es = []" and "filter isSpecial es = []"
    by (induction es) simp_all
qed

lemma specialEvents_filter [simp]:
  "filter isDatagram (specialEvents cfg f) = []"
  "filter isSnapshot (specialEvents cfg f) = []"
  "filter isEncodeCall (specialEvents cfg f) = []"
  "length (specialEvents cfg f) \<le> Suc 0"
  "filter isSpecial (specialEvents cfg f) = specialEvents cfg f"
  by (simp_all add: specialEvents_def)

lemma snapshotEvents_filter [simp]:
  "filter isDatagram (snapshotEvents f) = []"
  "filter isEncodeCall (snapshotEvents f) = []"
  "filter isSpecial (snapshotEvents f) = []"
  "filter isSnapshot (snapshotEvents f) = snapshotEvents f"
  by (simp_all add: snapshotEvents_def)

lemma packetDistributor_during:
  assumes run: "packetDistributor cfg answers changed f = Some (n, f')"
    and running: "\<not> isShuttingDown (node f)"
  obtains f4 pre es where
    "packingLoop cfg (startCycle (node f) changed) (maxPacketsPerInterval cfg (node f)) answers
       ((beforeLoop cfg changed f)\<lparr>extraPackingAttempts := 0, completedScene := False\<rparr>)
       = Some f4"
    and "f' = sceneSent (sendSpecial cfg f4)"
    and "fixed f4 = fixed f"
    and "trace (beforeLoop cfg changed f) = trace f @ pre"
    and "list_all isDatagram pre"
    and "trace f4 = trace f @ pre @ es"
    and "list_all (loopEvent (isFullScene (node f) changed)) es"
    and "during f f' = pre @ es @ specialEvents cfg f4 @ snapshotEvents f4"
    and "int (length (filter isDatagram (pre @ es)))
           \<le> max 4 (maxPacketsPerInterval cfg (node f) + 2)"
    and "n = int (length (filter isDatagram (pre @ es))) + int (length (specialEvents cfg f4))"
proof -
  from packetDistributor_shape [OF run running] obtain f4 pre es where
    loop: "packingLoop cfg (startCycle (node f) changed) (maxPacketsPerInterval cfg (node f))
       answers ((beforeLoop cfg changed f)\<lparr>extraPackingAttempts := 0, completedScene := False\<rparr>)
       = Some f4"
    and f': "f' = sceneSent (sendSpecial cfg f4)" and n: "n = truePacketsSent f'"
    and fixed4: "fixed f4 = fixed f"
    and trace2: "trace (beforeLoop cfg changed f) = trace f @ pre" "list_all isDatagram pre"
    and trace4: "trace f4 = trace f @ pre @ es"
    and events: "list_all (loopEvent (isFullScene (node f) changed)) es"
    and count: "packetsSentThisInterval f4 = int (length (filter isDatagram (pre @ es)))"
    and true: "truePacketsSent f4 = int (length (filter isDatagram (pre @ es)))"
    and bound: "packetsSentThisInterval f4 \<le> max 4 (maxPacketsPerInterval cfg (node f) + 2)"
    by blast
  have "during f f' = pre @ es @ specialEvents cfg f4 @ snapshotEvents f4"
    by (simp add: during_def f' trace4 snapshotEvents_def)
  moreover have
    "n = int (length (filter isDatagram (pre @ es))) + int (length (specialEvents cfg f4))"
    by (simp add: n f' true)
  moreover have "int (length (filter isDatagram (pre @ es)))
      \<le> max 4 (maxPacketsPerInterval cfg (node f) + 2)"
    using bound count by simp
  ultimately show ?thesis
    using that loop f' fixed4 events trace2 trace4 by blast
qed

lemma packetDistributor_guarded:
  assumes run: "packetDistributor cfg answers changed f = Some (n, f')"
    and running: "\<not> isShuttingDown (node f)"
  shows "guarded (maxPacketsPerInterval cfg (node f)) (during f f')"
proof -
  let ?m = "maxPacketsPerInterval cfg (node f)"
  let ?f2 = "beforeLoop cfg changed f"
  let ?f3 = "?f2\<lparr>extraPackingAttempts := 0, completedScene := False\<rparr>"
  obtain f4 pre es where
    loop: "packingLoop cfg (startCycle (node f) changed) ?m answers ?f3 = Some f4"
    and f': "f' = sceneSent (sendSpecial cfg f4)"
    and fixed4: "fixed f4 = fixed f"
    and trace2: "trace ?f2 = trace f @ pre"
    and pre: "list_all isDatagram pre"
    and trace4: "trace f4 = trace f @ pre @ es"
    and events: "list_all (loopEvent (isFullScene (node f) changed)) es"
    and during: "during f f' = pre @ es @ specialEvents cfg f4 @ snapshotEvents f4"
    and bound: "int (length (filter isDatagram (pre @ es))) \<le> max 4 (?m + 2)"
    and n: "n = int (length (filter isDatagram (pre @ es))) + int (length (specialEvents cfg f4))"
    by (rule packetDistributor_during [OF run running])
  from beforeLoop_progress [of f cfg changed] obtain ds where
    ds: "trace ?f2 = trace f @ ds"
    "packetsSentThisInterval ?f2 = int (length (filter isDatagram ds))"
    unfolding progress_def by (auto simp: entry_def)
  from ds(1) trace2 have "ds = pre"
    by simp
  with ds(2) have count: "packetsSentThisInterval ?f3 = int (length (filter isDatagram pre))"
    by simp
  have "guarded ?m pre"
    using guarded_append [of ?m "[]" pre] datagrams_filter(3) [OF pre]
    by (simp add: guarded_def)
  with packingLoop_guarded [OF loop, of "trace f" pre] trace2 count
  obtain es4 where es4: "trace f4 = trace f @ es4" "guarded ?m es4"
    by auto
  from es4(1) trace4 have "es4 = pre @ es"
    by simp
  with es4(2) have "guarded ?m (pre @ es)"
    by simp
  then have "guarded ?m ((pre @ es) @ specialEvents cfg f4 @ snapshotEvents f4)"
    by (rule guarded_append) simp
  with during show ?thesis
    by simp
qed

lemma beforeLoop_reseeds:
  assumes "nodeBag (node f) = []"
  shows "nodeBag (node (beforeLoop cfg False f)) = [root cfg]"
  using assms
  by (simp add: beforeLoop_def restartScene_def sceneBoundary_def Let_def startCycle_def entry_def bag_insert_def
      bag_deleteAll_def)

text \<open>
  With an empty bag the restart block is entered, and what it sends is what
  \<^verbatim>\<open>handlePacketSend\<close> sends at line 325.
\<close>

lemma beforeLoop_sends:
  assumes "nodeBag (node f) = []"
  shows "trace (beforeLoop cfg False f) =
           trace (snd (handlePacketSend cfg
             (sceneBoundary cfg (startCycle (node f) False)
               (flushOnFormatChange cfg (startCycle (node f) False) (entry f)))))"
    and "packetsSentThisInterval (beforeLoop cfg False f) =
           packetsSentThisInterval
             (flushOnFormatChange cfg (startCycle (node f) False) (entry f)) +
           fst (handlePacketSend cfg
             (sceneBoundary cfg (startCycle (node f) False)
               (flushOnFormatChange cfg (startCycle (node f) False) (entry f))))"
proof -
  let ?cyc = "startCycle (node f) False"
  let ?g = "flushOnFormatChange cfg ?cyc (entry f)"
  have empty: "nodeBag (node ?g) = []"
    using assms by (simp add: entry_def)
  have same: "packetsSentThisInterval (sceneBoundary cfg ?cyc ?g) = packetsSentThisInterval ?g"
    by (simp add: sceneBoundary_def Let_def)
  have "beforeLoop cfg False f = restartScene cfg ?cyc ?g"
    by (rule beforeLoop_entry)
  with empty same show
    "trace (beforeLoop cfg False f) = trace (snd (handlePacketSend cfg (sceneBoundary cfg ?cyc ?g)))"
    and "packetsSentThisInterval (beforeLoop cfg False f) =
      packetsSentThisInterval ?g + fst (handlePacketSend cfg (sceneBoundary cfg ?cyc ?g))"
    by (simp_all add: restartScene_def Let_def sendAndCount_def split_beta)
qed

section \<open>The sequence invariant\<close>

lemma carriedSequence_append [simp]:
  "carriedSequence (es @ fs) = carriedSequence es @ carriedSequence fs"
  by (induction es rule: carriedSequence.induct) simp_all

lemma wrapped_next [simp]:
  "wrapped cfg (wrapped cfg n + 1) = wrapped cfg (n + 1)"
  "(wrapped cfg n + 1) mod 2 ^ SEQUENCE_BITS cfg = wrapped cfg (n + 1)"
  "wrapped cfg (wrapped cfg n + k) = wrapped cfg (n + k)"
  by (simp_all add: wrapped_def mod_add_left_eq)

lemma numbering_Suc [simp]:
  "numbering cfg n0 (Suc k) = numbering cfg n0 k @ [wrapped cfg (n0 + int k)]"
  by (simp add: numbering_def)

lemma length_numbering [simp]: "length (numbering cfg n0 k) = k"
  by (simp add: numbering_def)

lemma numbering_add:
  "numbering cfg n0 (a + b) = numbering cfg n0 a @ numbering cfg (wrapped cfg (n0 + int a)) b"
proof (induction b)
  case 0
  then show ?case by (simp add: numbering_def)
next
  case (Suc b)
  then show ?case
    by (simp add: add.assoc)
qed

lemma wrapped_step:
  "wrapped cfg (wrapped cfg (n0 + int k) + 1) = wrapped cfg (n0 + int (Suc k))"
proof -
  have "wrapped cfg (wrapped cfg (n0 + int k) + 1) = wrapped cfg ((n0 + int k) + 1)"
    by (rule wrapped_next(1))
  also have "(n0 + int k) + 1 = n0 + int (Suc k)"
    by simp
  finally show ?thesis .
qed

lemma inOrder_cong:
  assumes "inOrder cfg n0 f"
    and "octreePacketSequence (node g) = octreePacketSequence (node f)"
    and "sequenceNumber (node g) = sequenceNumber (node f)"
    and "carriedSequence (trace g) = carriedSequence (trace f)"
  shows "inOrder cfg n0 g"
  using assms by (simp add: inOrder_def)

lemma sequence_handlePacketSend:
  "sequenceNumber (node (snd (handlePacketSend cfg f))) =
     (if 0 < fst (handlePacketSend cfg f) then wrapped cfg (sequenceNumber (node f) + 1)
      else sequenceNumber (node f))"
  by (auto simp: send_defs wrapped_def split: prod.splits if_splits)

lemma carried_handlePacketSend:
  "carriedSequence (during f (snd (handlePacketSend cfg f))) =
     (if 0 < fst (handlePacketSend cfg f) then [octreePacketSequence (node f)] else [])"
  by (auto simp: send_defs during_def split: prod.splits if_splits)

lemma carried_trace_handlePacketSend:
  "carriedSequence (trace (snd (handlePacketSend cfg f))) =
     carriedSequence (trace f) @
     (if 0 < fst (handlePacketSend cfg f) then [octreePacketSequence (node f)] else [])"
  by (auto simp: send_defs split: prod.splits if_splits)

lemma inOrder_handlePacketSend:
  assumes "inOrder cfg n0 f"
  shows "inOrder cfg n0 (snd (handlePacketSend cfg f))"
proof -
  let ?f' = "snd (handlePacketSend cfg f)"
  let ?k = "length (carriedSequence (trace f))"
  from assms have header: "octreePacketSequence (node f) = sequenceNumber (node f)"
    and current: "sequenceNumber (node f) = wrapped cfg (n0 + int ?k)"
    and carried: "carriedSequence (trace f) = numbering cfg n0 ?k"
    by (simp_all add: inOrder_def)
  have header': "octreePacketSequence (node ?f') = sequenceNumber (node ?f')"
    using header by (auto simp: send_defs split: prod.splits if_splits)
  show ?thesis
  proof (cases "0 < fst (handlePacketSend cfg f)")
    case True
    then have "carriedSequence (trace ?f') = carriedSequence (trace f) @ [sequenceNumber (node f)]"
      using carried_trace_handlePacketSend [of cfg f] header by simp
    with carried current
    have carried': "carriedSequence (trace ?f') = numbering cfg n0 (Suc ?k)"
      and count: "length (carriedSequence (trace ?f')) = Suc ?k"
      by simp_all
    have "sequenceNumber (node ?f') = wrapped cfg (sequenceNumber (node f) + 1)"
      using True sequence_handlePacketSend [of cfg f] by simp
    then have "sequenceNumber (node ?f') = wrapped cfg (n0 + int (Suc ?k))"
      by (simp only: current wrapped_step)
    with header' carried' count show ?thesis
      by (simp only: inOrder_def)
  next
    case False
    then have "carriedSequence (trace ?f') = carriedSequence (trace f)"
      and "sequenceNumber (node ?f') = sequenceNumber (node f)"
      using carried_trace_handlePacketSend [of cfg f] sequence_handlePacketSend [of cfg f]
      by simp_all
    with header' current carried show ?thesis
      by (simp add: inOrder_def)
  qed
qed

lemma inOrder_sendAndCount:
  "inOrder cfg n0 f \<Longrightarrow> inOrder cfg n0 (sendAndCount cfg f)"
  using inOrder_handlePacketSend [of cfg n0 f]
  by (simp add: sendAndCount_def split_beta inOrder_def)

lemma inOrder_writeFinalized:
  assumes "inOrder cfg n0 f"
  shows "inOrder cfg n0 (writeFinalized cfg f)"
proof -
  have "inOrder cfg n0 (g\<lparr>node := writeToPacket cfg b (node g), extraPackingAttempts := 0\<rparr>)"
    if "inOrder cfg n0 g" for g b
    using that by (simp add: inOrder_def)
  with assms inOrder_sendAndCount [OF assms] show ?thesis
    by (simp add: writeFinalized_def Let_def)
qed

lemma inOrder_packStep:
  assumes "inOrder cfg n0 f"
  shows "inOrder cfg n0 (packStep cfg cyc f)"
proof -
  let ?f1 = "writeFinalized cfg f"
  have f1: "inOrder cfg n0 ?f1"
    by (rule inOrder_writeFinalized [OF assms])
  have "inOrder cfg n0 (g\<lparr>packetData := p\<rparr>)" if "inOrder cfg n0 g" for g p
    using that by (simp add: inOrder_def)
  with f1 inOrder_sendAndCount [OF f1] show ?thesis
    by (simp add: packStep_def Let_def)
qed

lemma inOrder_iteration:
  "inOrder cfg n0 (snd p) \<Longrightarrow> inOrder cfg n0 (iteration cfg cyc p)"
  by (simp add: iteration_def inOrder_packStep)

lemma inOrder_encodeStep:
  "inOrder cfg n0 f \<Longrightarrow> inOrder cfg n0 (snd (encodeStep cfg cyc r subTree rest f))"
  by (simp add: encodeStep_def Let_def inOrder_def)

lemma inOrder_packingLoop:
  assumes "packingLoop cfg cyc m answers f = Some f'" and "inOrder cfg n0 f"
  shows "inOrder cfg n0 f'"
proof (rule packingLoop_invariant [OF assms(1), where P = "inOrder cfg n0"])
  show "inOrder cfg n0 f" by (rule assms(2))
next
  fix g r subTree rest
  assume "inOrder cfg n0 g"
  then show "inOrder cfg n0 (iteration cfg cyc (encodeStep cfg cyc r subTree rest g))"
    by (intro inOrder_iteration inOrder_encodeStep)
next
  fix g
  assume "inOrder cfg n0 g"
  then have "inOrder cfg n0 (g\<lparr>somethingToSend := False\<rparr>)"
    by (simp add: inOrder_def)
  then show "inOrder cfg n0 (iteration cfg cyc (False, g\<lparr>somethingToSend := False\<rparr>))"
    by (simp add: inOrder_iteration)
qed

lemma inOrder_flushOnFormatChange:
  assumes "inOrder cfg n0 f"
  shows "inOrder cfg n0 (flushOnFormatChange cfg cyc f)"
proof -
  have "inOrder cfg n0 (g\<lparr>packetData := p\<rparr>)" if "inOrder cfg n0 g" for g p
    using that by (simp add: inOrder_def)
  moreover have "inOrder cfg n0 (f\<lparr>node := resetOctreePacket cfg (node f)\<rparr>)"
    using assms by (simp add: inOrder_def resetOctreePacket_def)
  ultimately show ?thesis
    using assms inOrder_sendAndCount [OF assms]
    by (simp add: flushOnFormatChange_def Let_def)
qed

lemma inOrder_restartScene:
  assumes "inOrder cfg n0 f"
  shows "inOrder cfg n0 (restartScene cfg cyc f)"
proof -
  have send: "inOrder cfg n0 (sendAndCount cfg (f\<lparr>node := nd\<rparr>))"
    if "octreePacketSequence nd = octreePacketSequence (node f)"
      "sequenceNumber nd = sequenceNumber (node f)" for nd
    by (rule inOrder_sendAndCount) (use assms that in \<open>simp add: inOrder_def\<close>)
  have after: "inOrder cfg n0 (g\<lparr>node := nd\<rparr>)"
    if "inOrder cfg n0 g" "octreePacketSequence nd = octreePacketSequence (node g)"
      "sequenceNumber nd = sequenceNumber (node g)" for g nd
    using that by (simp add: inOrder_def)
  show ?thesis
    using assms
    by (auto simp: restartScene_def sceneBoundary_def Let_def resetForViewChange_def map_erase_def
        dumpOutOfView_def intro!: after send)
qed

lemma inOrder_packetDistributor:
  assumes "packetDistributor cfg answers changed f = Some (n, f')" and "inOrder cfg n0 f"
  shows "inOrder cfg n0 f'"
proof (cases "isShuttingDown (node f)")
  case True
  with assms show ?thesis
    by (simp add: packetDistributor_def)
next
  case False
  let ?f2 = "beforeLoop cfg changed f"
  obtain f4 where
    loop: "packingLoop cfg (startCycle (node f) changed) (maxPacketsPerInterval cfg (node f))
       answers (?f2\<lparr>extraPackingAttempts := 0, completedScene := False\<rparr>) = Some f4"
    and f': "f' = sceneSent (sendSpecial cfg f4)"
    using packetDistributor_shape [OF assms(1) False] by blast
  have "inOrder cfg n0 (entry f)"
    using assms(2) by (simp add: inOrder_def entry_def)
  then have "inOrder cfg n0 ?f2"
    unfolding beforeLoop_entry
    by (intro inOrder_restartScene inOrder_flushOnFormatChange)
  then have "inOrder cfg n0 (?f2\<lparr>extraPackingAttempts := 0, completedScene := False\<rparr>)"
    by (simp add: inOrder_def)
  then have "inOrder cfg n0 f4"
    by (rule inOrder_packingLoop [OF loop])
  then show ?thesis
    by (simp add: f' inOrder_def sendSpecial_def sceneSent_def specialEvents_def
        snapshotEvents_def map_erase_def setViewSent_def updateLastKnownViewFrustum_def)
qed


section \<open>Properties of the distributor\<close>

lemma result_the:
  assumes "map_option h r = Some v"
  shows "r = Some (fst (the r), snd (the r))" and "h (the r) = v"
  using assms by (cases r; simp)+

lemma exampleRun_value:
  "map_option (\<lambda>r. (fst r, during exampleFrame (snd r), nodeBag (node (snd r)),
       sequenceNumber (node (snd r)))) exampleRun =
     Some (1, [EncodeCall 0 exampleParams, OctreeDatagram 5 [1, 2, 3], SnapshotView 1], [], 6)"
  unfolding exampleRun_def exampleParams_def by code_simp

lemma exampleRun_Some: "exampleRun = Some (1, snd (the exampleRun))"
proof -
  have "fst (the exampleRun) = 1"
    using result_the(2) [OF exampleRun_value] by simp
  with result_the(1) [OF exampleRun_value] show ?thesis
    by (simp only:)
qed

lemma exampleRun_events:
  "during exampleFrame (snd (the exampleRun)) =
     [EncodeCall 0 exampleParams, OctreeDatagram 5 [1, 2, 3], SnapshotView 1]"
  using result_the(2) [OF exampleRun_value] by simp

lemma exampleRun_bag: "nodeBag (node (snd (the exampleRun))) = []"
  using result_the(2) [OF exampleRun_value] by simp

lemma exampleRun_sequence: "sequenceNumber (node (snd (the exampleRun))) = 6"
  using result_the(2) [OF exampleRun_value] by simp

text \<open>
  Claim C1, as amended. The loop starts an iteration only while fewer packets than the
  per-interval budget have been counted: every call of the encoder comes after fewer
  datagrams of this call than the budget, where the budget is
  \<open>min (max 1 (clientPPS / INTERVALS_PER_SECOND)) serverCap\<close>. But one call of
  \<^verbatim>\<open>handlePacketSend\<close> can hand two datagrams to the transport, an iteration can call it
  twice (sending at most three datagrams, since a call that sends two marks the statistics
  message as sent), and two calls precede the loop. So the number of datagrams that one call
  of the distributor sends through \<^verbatim>\<open>handlePacketSend\<close> is at most the larger of 4 and the
  budget plus 2; at most one special packet is added, and the returned count is the sum of
  both.
\<close>

theorem packetDistributor_budget:
  assumes "packetDistributor cfg answers changed f = Some (n, f')"
  shows "(\<forall>i < length (during f f'). isEncodeCall (during f f' ! i) \<longrightarrow>
            int (length (filter isDatagram (take i (during f f'))))
              < maxPacketsPerInterval cfg (node f)) \<and>
         int (length (filter isDatagram (during f f')))
           \<le> max 4 (maxPacketsPerInterval cfg (node f) + 2) \<and>
         length (filter isSpecial (during f f')) \<le> 1 \<and>
         n = int (length (filter isDatagram (during f f'))) +
             int (length (filter isSpecial (during f f')))"
proof (cases "isShuttingDown (node f)")
  case True
  with assms have "n = 0" "f' = f"
    by (simp_all add: packetDistributor_def)
  then show ?thesis
    by (simp add: during_def)
next
  case False
  obtain f4 pre es where
    loop: "packingLoop cfg (startCycle (node f) changed) (maxPacketsPerInterval cfg (node f))
       answers ((beforeLoop cfg changed f)\<lparr>extraPackingAttempts := 0, completedScene := False\<rparr>)
       = Some f4"
    and f': "f' = sceneSent (sendSpecial cfg f4)"
    and fixed4: "fixed f4 = fixed f"
    and trace2: "trace (beforeLoop cfg changed f) = trace f @ pre"
    and pre: "list_all isDatagram pre"
    and trace4: "trace f4 = trace f @ pre @ es"
    and events: "list_all (loopEvent (isFullScene (node f) changed)) es"
    and during: "during f f' = pre @ es @ specialEvents cfg f4 @ snapshotEvents f4"
    and bound: "int (length (filter isDatagram (pre @ es)))
           \<le> max 4 (maxPacketsPerInterval cfg (node f) + 2)"
    and n: "n = int (length (filter isDatagram (pre @ es))) + int (length (specialEvents cfg f4))"
    by (rule packetDistributor_during [OF assms False])
  have "\<forall>i < length (during f f'). isEncodeCall (during f f' ! i) \<longrightarrow>
      int (length (filter isDatagram (take i (during f f'))))
        < maxPacketsPerInterval cfg (node f)"
    using packetDistributor_guarded [OF assms False] by (simp only: guarded_iff)
  moreover have "int (length (filter isDatagram (during f f')))
        \<le> max 4 (maxPacketsPerInterval cfg (node f) + 2) \<and>
      length (filter isSpecial (during f f')) \<le> 1 \<and>
      n = int (length (filter isDatagram (during f f'))) +
          int (length (filter isSpecial (during f f')))"
    using bound n loopEvents_filter(2) [OF events] datagrams_filter(2) [OF pre]
    by (simp add: during)
  ultimately show ?thesis
    by (simp only:)
qed

theorem packetDistributor_budget_witness:
  "exampleRun = Some (1, snd (the exampleRun)) \<and>
   maxPacketsPerInterval exampleConfig (node exampleFrame) = 1 \<and>
   isEncodeCall (during exampleFrame (snd (the exampleRun)) ! 0) \<and>
   int (length (filter isDatagram (take 0 (during exampleFrame (snd (the exampleRun)))))) < 1 \<and>
   int (length (filter isDatagram (during exampleFrame (snd (the exampleRun))))) \<le> 4 \<and>
   1 = int (length (filter isDatagram (during exampleFrame (snd (the exampleRun))))) +
       int (length (filter isSpecial
         (during exampleFrame (snd (the exampleRun)))))"
proof -
  have budget: "maxPacketsPerInterval exampleConfig (node exampleFrame) = 1"
    by (simp add: maxPacketsPerInterval_def example_defs)
  have run: "packetDistributor exampleConfig [exampleAnswer] False exampleFrame =
      Some (1, snd (the exampleRun))"
    using exampleRun_Some by (simp only: exampleRun_def)
  note all = packetDistributor_budget [OF run]
  have first: "isEncodeCall (during exampleFrame (snd (the exampleRun)) ! 0)"
    by (simp add: exampleRun_events)
  have "0 < length (during exampleFrame (snd (the exampleRun)))"
    by (simp add: exampleRun_events)
  with all first
  have "int (length (filter isDatagram (take 0 (during exampleFrame (snd (the exampleRun))))))
      < maxPacketsPerInterval exampleConfig (node exampleFrame)"
    by blast
  with all first exampleRun_Some budget show ?thesis
    by simp
qed

text \<open>
  The claim as stated fails. At the end of a scene, with a budget of one packet, the
  statistics message does not fit into the waiting packet, so the first
  \<^verbatim>\<open>handlePacketSend\<close> of the call sends two datagrams, and the special packet follows:
  three packets leave in one call.
\<close>

theorem packetDistributor_budget_counterexample:
  "maxPacketsPerInterval specialConfig (node sceneEndFrame) = 1 \<and>
   outcome sceneEndFrame sceneEndRun =
     Some (3, [StatsDatagram 100, OctreeDatagram 5 (replicate 1400 8), SpecialDatagram])"
  unfolding sceneEndRun_def by code_simp

text \<open>
  Claim C7. In a cycle of a session that is not shutting down, the bag is not empty when the
  loop is reached; if it is empty after the loop, \<^verbatim>\<open>updateLastKnownViewFrustum\<close> is called
  exactly once in the cycle, the last known view is the current view, the view is marked as
  sent, and the coverage map is empty.
\<close>

theorem packetDistributor_snapshot:
  assumes run: "packetDistributor cfg answers changed f = Some (n, f')"
    and running: "\<not> isShuttingDown (node f)"
    and drained: "nodeBag (node f') = []"
  shows "nodeBag (node (beforeLoop cfg changed f)) \<noteq> [] \<and>
         filter isSnapshot (during f f') = [SnapshotView (currentViewFrustum (node f))] \<and>
         lastKnownViewFrustum (node f') = currentViewFrustum (node f) \<and>
         viewSent (node f') \<and>
         map_coverage (node f') = []"
proof -
  obtain f4 pre es where
    loop: "packingLoop cfg (startCycle (node f) changed) (maxPacketsPerInterval cfg (node f))
       answers ((beforeLoop cfg changed f)\<lparr>extraPackingAttempts := 0, completedScene := False\<rparr>)
       = Some f4"
    and f': "f' = sceneSent (sendSpecial cfg f4)"
    and fixed4: "fixed f4 = fixed f"
    and trace2: "trace (beforeLoop cfg changed f) = trace f @ pre"
    and pre: "list_all isDatagram pre"
    and trace4: "trace f4 = trace f @ pre @ es"
    and events: "list_all (loopEvent (isFullScene (node f) changed)) es"
    and during: "during f f' = pre @ es @ specialEvents cfg f4 @ snapshotEvents f4"
    and bound: "int (length (filter isDatagram (pre @ es)))
           \<le> max 4 (maxPacketsPerInterval cfg (node f) + 2)"
    and n: "n = int (length (filter isDatagram (pre @ es))) + int (length (specialEvents cfg f4))"
    by (rule packetDistributor_during [OF run running])
  from drained have empty4: "nodeBag (node f4) = []"
    by (simp add: f')
  have running4: "\<not> isShuttingDown (node f4)"
    using fixedD(1) [OF fixed4] running by simp
  have view4: "currentViewFrustum (node f4) = currentViewFrustum (node f)"
    by (rule fixedD(2) [OF fixed4])
  have "filter isSnapshot (during f f') = [SnapshotView (currentViewFrustum (node f))]"
    using loopEvents_filter(1) [OF events] datagrams_filter(1) [OF pre] empty4 view4
    by (simp add: during) (simp add: snapshotEvents_def)
  moreover have "lastKnownViewFrustum (node f') = currentViewFrustum (node f)"
    "viewSent (node f')" "map_coverage (node f') = []"
    using sceneSent_snapshot [of "sendSpecial cfg f4"] empty4 running4 view4
    by (simp_all add: f')
  ultimately show ?thesis
    by simp
qed

theorem packetDistributor_snapshot_witness:
  "exampleRun = Some (1, snd (the exampleRun)) \<and>
   \<not> isShuttingDown (node exampleFrame) \<and>
   nodeBag (node (snd (the exampleRun))) = [] \<and>
   filter isSnapshot (during exampleFrame (snd (the exampleRun))) = [SnapshotView 1] \<and>
   lastKnownViewFrustum (node (snd (the exampleRun))) = 1 \<and>
   viewSent (node (snd (the exampleRun))) \<and>
   map_coverage (node (snd (the exampleRun))) = []"
proof -
  have running: "\<not> isShuttingDown (node exampleFrame)"
    and view: "currentViewFrustum (node exampleFrame) = 1"
    by (simp_all add: example_defs)
  have drained: "nodeBag (node (snd (the exampleRun))) = []"
    by (rule exampleRun_bag)
  show ?thesis
    using packetDistributor_snapshot [OF exampleRun_Some [unfolded exampleRun_def] running
        drained [unfolded exampleRun_def]]
      exampleRun_Some running drained view
    by (simp add: exampleRun_def)
qed

lemma loopEvents_encode:
  assumes "list_all (loopEvent full) es" and "EncodeCall e p \<in> set es"
  shows "forceSendScene p = full"
  using assms by (induction es) auto

lemma datagrams_no_encode:
  assumes "list_all isDatagram es"
  shows "EncodeCall e p \<notin> set es"
  using assms by (induction es) auto

text \<open>
  Claim C2, as amended. \<^verbatim>\<open>isFullScene\<close> is the LOD change alone when the view changed and
  the client is in delta mode; otherwise it is "the view just stopped changing, or the LOD
  changed". Every call of the encoder in the cycle is given this value as
  \<^verbatim>\<open>forceSendScene\<close>.
\<close>

theorem isFullScene_delta_guard:
  "isFullScene nd viewChanged =
     (if viewChanged \<and> wantDelta nd then hasLodChanged nd
      else viewFrustumJustStoppedChanging nd \<or> hasLodChanged nd) \<and>
   (packetDistributor cfg answers changed f = Some (n, f') \<longrightarrow>
      (\<forall>e p. EncodeCall e p \<in> set (during f f') \<longrightarrow>
         forceSendScene p = isFullScene (node f) changed))"
proof
  show "isFullScene nd viewChanged =
     (if viewChanged \<and> wantDelta nd then hasLodChanged nd
      else viewFrustumJustStoppedChanging nd \<or> hasLodChanged nd)"
    by (auto simp: isFullScene_def)
next
  show "packetDistributor cfg answers changed f = Some (n, f') \<longrightarrow>
      (\<forall>e p. EncodeCall e p \<in> set (during f f') \<longrightarrow>
         forceSendScene p = isFullScene (node f) changed)"
  proof (intro impI allI)
    fix e p
    assume run: "packetDistributor cfg answers changed f = Some (n, f')"
      and call: "EncodeCall e p \<in> set (during f f')"
    show "forceSendScene p = isFullScene (node f) changed"
    proof (cases "isShuttingDown (node f)")
      case True
      with run have "f' = f"
        by (simp add: packetDistributor_def)
      with call show ?thesis
        by (simp add: during_def)
    next
      case False
      obtain f4 pre es where
        loop: "packingLoop cfg (startCycle (node f) changed)
           (maxPacketsPerInterval cfg (node f)) answers
           ((beforeLoop cfg changed f)\<lparr>extraPackingAttempts := 0, completedScene := False\<rparr>)
           = Some f4"
        and f': "f' = sceneSent (sendSpecial cfg f4)"
        and fixed4: "fixed f4 = fixed f"
        and trace2: "trace (beforeLoop cfg changed f) = trace f @ pre"
        and pre: "list_all isDatagram pre"
        and trace4: "trace f4 = trace f @ pre @ es"
        and events: "list_all (loopEvent (isFullScene (node f) changed)) es"
        and during: "during f f' = pre @ es @ specialEvents cfg f4 @ snapshotEvents f4"
        and bound: "int (length (filter isDatagram (pre @ es)))
               \<le> max 4 (maxPacketsPerInterval cfg (node f) + 2)"
        and n: "n = int (length (filter isDatagram (pre @ es))) +
               int (length (specialEvents cfg f4))"
        by (rule packetDistributor_during [OF run False])
      from call during datagrams_no_encode [OF pre] have "EncodeCall e p \<in> set es"
        by (auto simp: specialEvents_def snapshotEvents_def split: if_splits)
      with events show ?thesis
        by (rule loopEvents_encode)
    qed
  qed
qed

theorem isFullScene_delta_guard_witness:
  "exampleRun = Some (1, snd (the exampleRun)) \<and>
   EncodeCall 0 exampleParams \<in> set (during exampleFrame (snd (the exampleRun))) \<and>
   forceSendScene exampleParams = isFullScene (node exampleFrame) False \<and>
   isFullScene deltaNode True = hasLodChanged deltaNode"
proof -
  have called: "EncodeCall 0 exampleParams \<in> set (during exampleFrame (snd (the exampleRun)))"
    by (simp add: exampleRun_events)
  have delta: "wantDelta deltaNode"
    by (simp add: deltaNode_def)
  show ?thesis
    using isFullScene_delta_guard [of deltaNode True exampleConfig "[exampleAnswer]" False
        exampleFrame 1 "snd (the exampleRun)"]
      exampleRun_Some called delta
    by (simp add: exampleRun_def)
qed

text \<open>
  The claim as stated fails: for a client in delta mode whose view changed, the view having
  just stopped changing does not make the scene a full scene.
\<close>

theorem isFullScene_counterexample:
  "viewFrustumJustStoppedChanging deltaNode \<and>
   (viewFrustumJustStoppedChanging deltaNode \<or> hasLodChanged deltaNode) \<and>
   \<not> isFullScene deltaNode True"
  by (simp add: deltaNode_def exampleNode_def isFullScene_def hasLodChanged_def)

text \<open>
  Claim C8, as amended. In an iteration that encodes, the flag "last node didn't fit" is set
  exactly when the encoder wrote no bytes, the stop reason is \<^verbatim>\<open>DIDNT_FIT\<close>, and, if the
  assembler's target is the full packet size, the assembler already has content. When the
  target is smaller (more is being packed into a compressed packet) content is not required.
  The flag is never set for another stop reason.
\<close>

theorem encodeStep_didnt_fit:
  "fst (encodeStep cfg cyc r subTree rest f) \<longleftrightarrow>
     appended r = [] \<and> stopReason r = DIDNT_FIT \<and>
     (targetSize (packetData f) = MAX_OCTREE_PACKET_DATA_SIZE cfg \<longrightarrow> hasContent (packetData f))"
  by (auto simp: encodeStep_def Let_def lastNodeDidntFit_def hasContent_def)

theorem encodeStep_didnt_fit_witness:
  "targetSize (packetData exampleFrame) = MAX_OCTREE_PACKET_DATA_SIZE exampleConfig \<and>
   \<not> hasContent (packetData exampleFrame) \<and>
   \<not> fst (encodeStep exampleConfig (startCycle exampleNode False) didntFitAnswer 4 []
           exampleFrame)"
  using encodeStep_didnt_fit [where cfg = exampleConfig and r = didntFitAnswer
      and f = exampleFrame and cyc = "startCycle exampleNode False" and subTree = 4 and rest = "[]"]
  by (simp add: example_defs hasContent_def)

text \<open>
  The claim as stated fails: while more is packed into a compressed packet, the flag is set
  although the assembler has no content.
\<close>

theorem encodeStep_didnt_fit_counterexample:
  "\<not> hasContent (packetData packMoreFrame) \<and>
   appended didntFitAnswer = [] \<and> stopReason didntFitAnswer = DIDNT_FIT \<and>
   fst (encodeStep exampleConfig (startCycle (node packMoreFrame) False) didntFitAnswer 4 []
         packMoreFrame)"
  by (simp add: packMoreFrame_def didntFitAnswer_def example_defs hasContent_def encodeStep_def
      lastNodeDidntFit_def Let_def)

text \<open>
  Claim C6, as amended. At a scene-restart boundary of a session that is not shutting down,
  the coverage map is cleared on every view change and kept when only the empty bag caused
  the restart; the contents of the bag are discarded when the view changed with a
  move-triggered dump or an LOD change, and also when the cycle is a full scene; in every
  case the root is then inserted.
\<close>

theorem restartScene_clears:
  assumes "\<not> isShuttingDown (node f)"
    and "viewFrustumChanged cyc \<or> nodeBag (node f) = []"
  shows "map_coverage (node (restartScene cfg cyc f)) =
           (if viewFrustumChanged cyc then [] else map_coverage (node f)) \<and>
         nodeBag (node (restartScene cfg cyc f)) =
           (if viewFrustumChanged cyc \<and> (moveShouldDump (node f) \<or> hasLodChanged (node f))
               \<or> fullScene cyc
            then [root cfg] else bag_insert (root cfg) (nodeBag (node f)))"
  using assms
  by (auto simp: restartScene_def sceneBoundary_def Let_def resetForViewChange_def map_erase_def dumpOutOfView_def
      bag_deleteAll_def bag_insert_def hasLodChanged_def)

theorem restartScene_clears_witness:
  "\<not> isShuttingDown (node movedFrame) \<and>
   viewFrustumChanged (startCycle (node movedFrame) True) \<and>
   map_coverage (node (restartScene exampleConfig (startCycle (node movedFrame) True) movedFrame))
     = [] \<and>
   nodeBag (node (restartScene exampleConfig (startCycle (node movedFrame) True) movedFrame))
     = [3, 4, 0]"
proof -
  have running: "\<not> isShuttingDown (node movedFrame)"
    by (simp add: movedFrame_def example_defs)
  have changed: "viewFrustumChanged (startCycle (node movedFrame) True)"
    by (simp add: startCycle_def)
  have facts: "\<not> moveShouldDump (node movedFrame)" "\<not> hasLodChanged (node movedFrame)"
    "\<not> fullScene (startCycle (node movedFrame) True)"
    "bag_insert (root exampleConfig) (nodeBag (node movedFrame)) = [3, 4, 0]"
    by (simp_all add: movedFrame_def example_defs startCycle_def isFullScene_def
        hasLodChanged_def bag_insert_def)
  show ?thesis
    using restartScene_clears [OF running disjI1 [OF changed], of exampleConfig]
      running changed facts
    by simp
qed

text \<open>
  The claim as stated fails: a view change without a move-triggered dump and without an LOD
  change clears the coverage map.
\<close>

theorem restartScene_clears_counterexample:
  "\<not> moveShouldDump (node movedFrame) \<and> \<not> hasLodChanged (node movedFrame) \<and>
   map_coverage (node movedFrame) = [7] \<and>
   map_coverage (node (restartScene exampleConfig (startCycle (node movedFrame) True) movedFrame))
     = []"
  by (simp add: movedFrame_def example_defs hasLodChanged_def startCycle_def restartScene_def sceneBoundary_def
      resetForViewChange_def map_erase_def Let_def)

lemma pendingRun_value:
  "outcome pendingFrame pendingRun =
     Some (1, [OctreeDatagram 5 [5, 5, 5], EncodeCall 0 exampleParams, SnapshotView 1])"
  unfolding pendingRun_def exampleParams_def by code_simp

lemma pendingRun_Some: "pendingRun = Some (1, snd (the pendingRun))"
proof -
  have run: "map_option (\<lambda>r. (fst r, during pendingFrame (snd r))) pendingRun =
      Some (1, [OctreeDatagram 5 [5, 5, 5], EncodeCall 0 exampleParams, SnapshotView 1])"
    using pendingRun_value by (simp add: outcome_def split_def)
  have "fst (the pendingRun) = 1"
    using result_the(2) [OF run] by simp
  with result_the(1) [OF run] show ?thesis
    by (simp only:)
qed

lemma pendingFrame_boundary:
  "(packetsSentThisInterval (beforeLoop exampleConfig False pendingFrame),
    trace (snd (handlePacketSend exampleConfig
      (sceneBoundary exampleConfig (startCycle (node pendingFrame) False)
        (flushOnFormatChange exampleConfig (startCycle (node pendingFrame) False)
          (entry pendingFrame)))))) =
   (1, [OctreeDatagram 5 [5, 5, 5]])"
  by code_simp

text \<open>
  Claim C5, as amended. A call for a session that is shutting down returns 0 and changes
  nothing: no encoder call, no packet. A call with an empty bag and an unchanged view for
  a session that is not shutting down is a scene-restart boundary: \<^verbatim>\<open>handlePacketSend\<close> is
  called on the session as the boundary left it, what it sends is all that the steps before
  the loop add to what the format check sent, and the bag is reseeded with the root. Unless
  the packets sent before the loop already reach the budget, the encoder is then called,
  first on the root, as the first event after those of the steps before the loop.
\<close>

theorem packetDistributor_empty_bag_restarts:
  "(isShuttingDown (node f) \<longrightarrow> packetDistributor cfg answers False f = Some (0, f)) \<and>
   (\<not> isShuttingDown (node f) \<and> nodeBag (node f) = [] \<longrightarrow>
      nodeBag (node (beforeLoop cfg False f)) = [root cfg] \<and>
      trace (beforeLoop cfg False f) =
        trace (snd (handlePacketSend cfg
          (sceneBoundary cfg (startCycle (node f) False)
            (flushOnFormatChange cfg (startCycle (node f) False) (entry f))))) \<and>
      packetsSentThisInterval (beforeLoop cfg False f) =
        packetsSentThisInterval (flushOnFormatChange cfg (startCycle (node f) False) (entry f)) +
        fst (handlePacketSend cfg
          (sceneBoundary cfg (startCycle (node f) False)
            (flushOnFormatChange cfg (startCycle (node f) False) (entry f))))) \<and>
   (\<not> isShuttingDown (node f) \<and> nodeBag (node f) = [] \<and>
    packetsSentThisInterval (beforeLoop cfg False f) < maxPacketsPerInterval cfg (node f) \<and>
    packetDistributor cfg answers False f = Some (n, f') \<longrightarrow>
      (\<exists>p es. during f f' = during f (beforeLoop cfg False f) @ EncodeCall (root cfg) p # es \<and>
         filter isEncodeCall (during f f') = EncodeCall (root cfg) p # filter isEncodeCall es))"
proof (intro conjI impI)
  assume "isShuttingDown (node f)"
  then show "packetDistributor cfg answers False f = Some (0, f)"
    by (simp add: packetDistributor_def)
next
  assume "\<not> isShuttingDown (node f) \<and> nodeBag (node f) = []"
  then show "nodeBag (node (beforeLoop cfg False f)) = [root cfg]"
    by (simp add: beforeLoop_reseeds)
next
  assume "\<not> isShuttingDown (node f) \<and> nodeBag (node f) = []"
  then have empty: "nodeBag (node f) = []"
    by simp
  show "trace (beforeLoop cfg False f) =
      trace (snd (handlePacketSend cfg
        (sceneBoundary cfg (startCycle (node f) False)
          (flushOnFormatChange cfg (startCycle (node f) False) (entry f)))))"
    by (rule beforeLoop_sends(1) [OF empty])
  show "packetsSentThisInterval (beforeLoop cfg False f) =
      packetsSentThisInterval (flushOnFormatChange cfg (startCycle (node f) False) (entry f)) +
      fst (handlePacketSend cfg
        (sceneBoundary cfg (startCycle (node f) False)
          (flushOnFormatChange cfg (startCycle (node f) False) (entry f))))"
    by (rule beforeLoop_sends(2) [OF empty])
next
  let ?changed = False
  let ?cyc = "startCycle (node f) ?changed"
  let ?m = "maxPacketsPerInterval cfg (node f)"
  let ?f3 = "(beforeLoop cfg ?changed f)\<lparr>extraPackingAttempts := 0, completedScene := False\<rparr>"
  assume asm: "\<not> isShuttingDown (node f) \<and> nodeBag (node f) = [] \<and>
    packetsSentThisInterval (beforeLoop cfg False f) < maxPacketsPerInterval cfg (node f) \<and>
    packetDistributor cfg answers False f = Some (n, f')"
  then have running: "\<not> isShuttingDown (node f)" and empty: "nodeBag (node f) = []"
    and below: "packetsSentThisInterval (beforeLoop cfg False f) < ?m"
    and run: "packetDistributor cfg answers False f = Some (n, f')"
    by simp_all
  obtain f4 pre es where
    loop: "packingLoop cfg ?cyc ?m answers ?f3 = Some f4"
    and f': "f' = sceneSent (sendSpecial cfg f4)"
    and fixed4: "fixed f4 = fixed f"
    and trace2: "trace (beforeLoop cfg ?changed f) = trace f @ pre"
    and pre: "list_all isDatagram pre"
    and trace4: "trace f4 = trace f @ pre @ es"
    and events: "list_all (loopEvent (isFullScene (node f) ?changed)) es"
    and during: "during f f' = pre @ es @ specialEvents cfg f4 @ snapshotEvents f4"
    and bound: "int (length (filter isDatagram (pre @ es))) \<le> max 4 (?m + 2)"
    and n: "n = int (length (filter isDatagram (pre @ es))) + int (length (specialEvents cfg f4))"
    by (rule packetDistributor_during [OF run running])
  have go: "somethingToSend ?f3 \<and> packetsSentThisInterval ?f3 < ?m \<and> \<not> isShuttingDown (node ?f3)"
    using below running fixedD(1) [of "beforeLoop cfg ?changed f" f] by simp
  have bag3: "nodeBag (node ?f3) = [root cfg]"
    using beforeLoop_reseeds [OF empty] by simp
  from loop go bag3 obtain r rs where
    rest: "packingLoop cfg ?cyc ?m rs
             (iteration cfg ?cyc (encodeStep cfg ?cyc r (root cfg) [] ?f3)) = Some f4"
    by (cases answers) (simp_all add: packingLoop.simps [of cfg ?cyc ?m _ ?f3])
  let ?e = "encodeStep cfg ?cyc r (root cfg) [] ?f3"
  let ?g = "iteration cfg ?cyc ?e"
  let ?p = "encodeParams cfg ?cyc (node ?f3)"
  obtain ds where ds: "trace ?g = trace (snd ?e) @ ds"
    using iteration_progress [of ?e cfg ?cyc] unfolding progress_def by blast
  obtain es' where es': "trace f4 = trace ?g @ es'"
    using packingLoop_progress [OF rest] unfolding progress_def by blast
  let ?rest = "ds @ es' @ specialEvents cfg f4 @ snapshotEvents f4"
  have "trace f4 = trace f @ pre @ EncodeCall (root cfg) ?p # ds @ es'"
    using es' ds trace2 by (simp add: encodeStep_trace)
  with trace4 have es: "es = EncodeCall (root cfg) ?p # ds @ es'"
    by simp
  have before: "during f (beforeLoop cfg False f) = pre"
    by (simp add: during_def trace2)
  have "during f f' = during f (beforeLoop cfg False f) @ EncodeCall (root cfg) ?p # ?rest"
    by (simp add: during es before)
  moreover have
    "filter isEncodeCall (during f f') = EncodeCall (root cfg) ?p # filter isEncodeCall ?rest"
    using datagrams_filter(3) [OF pre] by (simp add: during es)
  ultimately show
    "\<exists>p es. during f f' = during f (beforeLoop cfg False f) @ EncodeCall (root cfg) p # es \<and>
       filter isEncodeCall (during f f') = EncodeCall (root cfg) p # filter isEncodeCall es"
    by blast
qed

theorem packetDistributor_empty_bag_restarts_witness:
  "isShuttingDown (node shutdownFrame) \<and>
   packetDistributor exampleConfig [exampleAnswer] False shutdownFrame = Some (0, shutdownFrame) \<and>
   \<not> isShuttingDown (node pendingFrame) \<and> nodeBag (node pendingFrame) = [] \<and>
   packetsSentThisInterval (beforeLoop exampleConfig False pendingFrame)
     < maxPacketsPerInterval exampleConfig (node pendingFrame) \<and>
   pendingRun = Some (1, snd (the pendingRun)) \<and>
   nodeBag (node (beforeLoop exampleConfig False pendingFrame)) = [root exampleConfig] \<and>
   trace (beforeLoop exampleConfig False pendingFrame) = [OctreeDatagram 5 [5, 5, 5]] \<and>
   (\<exists>p es. during pendingFrame (snd (the pendingRun)) =
      during pendingFrame (beforeLoop exampleConfig False pendingFrame) @
        EncodeCall (root exampleConfig) p # es \<and>
      filter isEncodeCall (during pendingFrame (snd (the pendingRun))) =
        EncodeCall (root exampleConfig) p # filter isEncodeCall es)"
proof -
  have down: "isShuttingDown (node shutdownFrame)"
    by (simp add: shutdownFrame_def)
  have running: "\<not> isShuttingDown (node pendingFrame)" and empty: "nodeBag (node pendingFrame) = []"
    by (simp_all add: pendingFrame_def example_defs)
  have sent: "packetsSentThisInterval (beforeLoop exampleConfig False pendingFrame) = 1"
    and boundary: "trace (snd (handlePacketSend exampleConfig
      (sceneBoundary exampleConfig (startCycle (node pendingFrame) False)
        (flushOnFormatChange exampleConfig (startCycle (node pendingFrame) False)
          (entry pendingFrame))))) = [OctreeDatagram 5 [5, 5, 5]]"
    using pendingFrame_boundary by simp_all
  have budget: "maxPacketsPerInterval exampleConfig (node pendingFrame) = 2"
    by (simp add: maxPacketsPerInterval_def pendingFrame_def example_defs)
  have run: "packetDistributor exampleConfig [exampleAnswer] False pendingFrame =
      Some (1, snd (the pendingRun))"
    using pendingRun_Some by (simp only: pendingRun_def)
  show ?thesis
    using packetDistributor_empty_bag_restarts [of shutdownFrame exampleConfig "[exampleAnswer]"]
      packetDistributor_empty_bag_restarts [of pendingFrame exampleConfig "[exampleAnswer]"
        1 "snd (the pendingRun)"]
      down running empty sent budget boundary run pendingRun_Some
    by simp
qed

text \<open>
  The claim as stated fails: with an empty bag and an unchanged view the distributor calls
  the encoder once and sends one packet.
\<close>

theorem packetDistributor_empty_bag_counterexample:
  "nodeBag (node exampleFrame) = [] \<and> \<not> isShuttingDown (node exampleFrame) \<and>
   outcome exampleFrame exampleRun =
     Some (1, [EncodeCall 0 exampleParams, OctreeDatagram 5 [1, 2, 3], SnapshotView 1])"
  unfolding exampleRun_def exampleParams_def by code_simp

section \<open>Sequence numbers\<close>

lemma packetDistributor_trace:
  assumes "packetDistributor cfg answers changed f = Some (n, f')"
  shows "trace f' = trace f @ during f f'"
proof (cases "isShuttingDown (node f)")
  case True
  with assms show ?thesis
    by (simp add: packetDistributor_def during_def)
next
  case False
  obtain f4 pre es where
    loop: "packingLoop cfg (startCycle (node f) changed) (maxPacketsPerInterval cfg (node f))
       answers ((beforeLoop cfg changed f)\<lparr>extraPackingAttempts := 0, completedScene := False\<rparr>)
       = Some f4"
    and f': "f' = sceneSent (sendSpecial cfg f4)"
    and fixed4: "fixed f4 = fixed f"
    and trace2: "trace (beforeLoop cfg changed f) = trace f @ pre"
    and pre: "list_all isDatagram pre"
    and trace4: "trace f4 = trace f @ pre @ es"
    and events: "list_all (loopEvent (isFullScene (node f) changed)) es"
    and during: "during f f' = pre @ es @ specialEvents cfg f4 @ snapshotEvents f4"
    and bound: "int (length (filter isDatagram (pre @ es)))
           \<le> max 4 (maxPacketsPerInterval cfg (node f) + 2)"
    and n: "n = int (length (filter isDatagram (pre @ es))) + int (length (specialEvents cfg f4))"
    by (rule packetDistributor_during [OF assms False])
  show ?thesis
    unfolding during by (simp add: f' trace4 snapshotEvents_def)
qed

text \<open>
  What a call added to a trace that is in order is numbered from the sequence number the
  call started with.
\<close>

lemma inOrder_during:
  assumes before: "inOrder cfg n0 f" and after: "inOrder cfg n0 f'"
    and grown: "trace f' = trace f @ during f f'"
  shows "carriedSequence (during f f') =
           numbering cfg (sequenceNumber (node f)) (length (carriedSequence (during f f')))"
    and "sequenceNumber (node f') =
           wrapped cfg (sequenceNumber (node f) + int (length (carriedSequence (during f f'))))"
proof -
  let ?a = "length (carriedSequence (trace f))"
  let ?b = "length (carriedSequence (during f f'))"
  have total: "carriedSequence (trace f') = carriedSequence (trace f) @ carriedSequence (during f f')"
    using grown by (simp add: carriedSequence_append)
  then have len: "length (carriedSequence (trace f')) = ?a + ?b"
    by simp
  have start: "sequenceNumber (node f) = wrapped cfg (n0 + int ?a)"
    and old: "carriedSequence (trace f) = numbering cfg n0 ?a"
    using before by (simp_all only: inOrder_def)
  have new: "carriedSequence (trace f') = numbering cfg n0 (?a + ?b)"
    and stop: "sequenceNumber (node f') = wrapped cfg (n0 + int (?a + ?b))"
    using after len by (simp_all only: inOrder_def)
  have split: "numbering cfg n0 (?a + ?b) =
      numbering cfg n0 ?a @ numbering cfg (wrapped cfg (n0 + int ?a)) ?b"
    by (rule numbering_add)
  from total new split old have
    "numbering cfg n0 ?a @ carriedSequence (during f f') =
      numbering cfg n0 ?a @ numbering cfg (wrapped cfg (n0 + int ?a)) ?b"
    by (simp only:)
  then show "carriedSequence (during f f') = numbering cfg (sequenceNumber (node f)) ?b"
    by (simp only: start same_append_eq)
  have "wrapped cfg (wrapped cfg (n0 + int ?a) + int ?b) = wrapped cfg (n0 + int ?a + int ?b)"
    by (simp add: wrapped_def mod_add_left_eq)
  then show "sequenceNumber (node f') = wrapped cfg (sequenceNumber (node f) + int ?b)"
    by (simp add: stop start add.assoc)
qed

text \<open>
  Claim C3, as amended. The sequence number lives in a fixed number of bits, so it does not
  increase strictly: advancing the largest number gives 0. For a session in which the packet
  header holds the current sequence number and the packets transmitted so far carry
  consecutive numbers modulo \<open>2 ^ SEQUENCE_BITS\<close> (\<open>inOrder\<close>): a call of
  \<^verbatim>\<open>handlePacketSend\<close> keeps this invariant; it advances the sequence number by one modulo
  \<open>2 ^ SEQUENCE_BITS\<close> when it transmitted (by exactly one below the largest number, to 0
  from the largest number) and leaves it unchanged otherwise, and the octree packet it
  transmitted carries the number from before the call; a call that suppresses a duplicate
  returns 0 and leaves the sequence number unchanged; and a whole run of the distributor
  keeps the invariant, so the packets it transmitted carry the sequence number at entry, the
  next one, and so on, each one more than the one before modulo \<open>2 ^ SEQUENCE_BITS\<close>, and
  the sequence number at exit is the one after the last.
\<close>

theorem sequence_advances_on_transmission:
  assumes "inOrder cfg n0 f"
  shows "inOrder cfg n0 (snd (handlePacketSend cfg f)) \<and>
         sequenceNumber (node (snd (handlePacketSend cfg f))) =
           (if 0 < fst (handlePacketSend cfg f)
            then (sequenceNumber (node f) + 1) mod 2 ^ SEQUENCE_BITS cfg
            else sequenceNumber (node f)) \<and>
         (0 < fst (handlePacketSend cfg f) \<and>
          sequenceNumber (node f) + 1 < 2 ^ SEQUENCE_BITS cfg \<longrightarrow>
            sequenceNumber (node (snd (handlePacketSend cfg f))) = sequenceNumber (node f) + 1) \<and>
         (0 < fst (handlePacketSend cfg f) \<and>
          sequenceNumber (node f) + 1 = 2 ^ SEQUENCE_BITS cfg \<longrightarrow>
            sequenceNumber (node (snd (handlePacketSend cfg f))) = 0) \<and>
         carriedSequence (during f (snd (handlePacketSend cfg f))) =
           (if 0 < fst (handlePacketSend cfg f) then [sequenceNumber (node f)] else []) \<and>
         (\<not> isShuttingDown (node f) \<and> fst (shouldSuppressDuplicatePacket (node f)) \<longrightarrow>
            fst (handlePacketSend cfg f) = 0 \<and>
            sequenceNumber (node (snd (handlePacketSend cfg f))) = sequenceNumber (node f)) \<and>
         (packetDistributor cfg answers changed f = Some (n, f') \<longrightarrow>
            inOrder cfg n0 f' \<and>
            carriedSequence (during f f') =
              map (\<lambda>i. (sequenceNumber (node f) + int i) mod 2 ^ SEQUENCE_BITS cfg)
                [0 ..< length (carriedSequence (during f f'))] \<and>
            sequenceNumber (node f') =
              (sequenceNumber (node f) + int (length (carriedSequence (during f f'))))
                mod 2 ^ SEQUENCE_BITS cfg)"
proof (intro conjI impI)
  have range: "0 \<le> sequenceNumber (node f)"
    using assms by (simp add: inOrder_def wrapped_def)
  show "inOrder cfg n0 (snd (handlePacketSend cfg f))"
    by (rule inOrder_handlePacketSend [OF assms])
  show step: "sequenceNumber (node (snd (handlePacketSend cfg f))) =
      (if 0 < fst (handlePacketSend cfg f)
       then (sequenceNumber (node f) + 1) mod 2 ^ SEQUENCE_BITS cfg
       else sequenceNumber (node f))"
    using sequence_handlePacketSend [of cfg f] by (simp only: wrapped_def)
  show "carriedSequence (during f (snd (handlePacketSend cfg f))) =
      (if 0 < fst (handlePacketSend cfg f) then [sequenceNumber (node f)] else [])"
    using assms by (simp add: carried_handlePacketSend inOrder_def)
  {
    assume "0 < fst (handlePacketSend cfg f) \<and>
      sequenceNumber (node f) + 1 < 2 ^ SEQUENCE_BITS cfg"
    with step range
    show "sequenceNumber (node (snd (handlePacketSend cfg f))) = sequenceNumber (node f) + 1"
      by simp
  }
  {
    assume "0 < fst (handlePacketSend cfg f) \<and>
      sequenceNumber (node f) + 1 = 2 ^ SEQUENCE_BITS cfg"
    with step show "sequenceNumber (node (snd (handlePacketSend cfg f))) = 0"
      by simp
  }
next
  assume "\<not> isShuttingDown (node f) \<and> fst (shouldSuppressDuplicatePacket (node f))"
  then show "fst (handlePacketSend cfg f) = 0"
    and "sequenceNumber (node (snd (handlePacketSend cfg f))) = sequenceNumber (node f)"
    by (auto simp: handlePacketSend_def resetOctreePacket_def shouldSuppressDuplicatePacket_def
        split: prod.splits if_splits)
next
  assume run: "packetDistributor cfg answers changed f = Some (n, f')"
  show after: "inOrder cfg n0 f'"
    by (rule inOrder_packetDistributor [OF run assms])
  show "carriedSequence (during f f') =
      map (\<lambda>i. (sequenceNumber (node f) + int i) mod 2 ^ SEQUENCE_BITS cfg)
        [0 ..< length (carriedSequence (during f f'))]"
    using inOrder_during(1) [OF assms after packetDistributor_trace [OF run]]
    by (simp only: numbering_def wrapped_def)
  show "sequenceNumber (node f') =
      (sequenceNumber (node f) + int (length (carriedSequence (during f f'))))
        mod 2 ^ SEQUENCE_BITS cfg"
    using inOrder_during(2) [OF assms after packetDistributor_trace [OF run]]
    by (simp only: wrapped_def)
qed

theorem sequence_advances_on_transmission_witness:
  "inOrder exampleConfig 5 duplicateFrame \<and> \<not> isShuttingDown (node duplicateFrame) \<and>
   fst (shouldSuppressDuplicatePacket (node duplicateFrame)) \<and>
   fst (handlePacketSend exampleConfig duplicateFrame) = 0 \<and>
   sequenceNumber (node (snd (handlePacketSend exampleConfig duplicateFrame))) = 5 \<and>
   inOrder exampleConfig 65535 wrapFrame \<and>
   0 < fst (handlePacketSend exampleConfig wrapFrame) \<and>
   sequenceNumber (node wrapFrame) + 1 = 2 ^ SEQUENCE_BITS exampleConfig \<and>
   sequenceNumber (node (snd (handlePacketSend exampleConfig wrapFrame))) = 0 \<and>
   inOrder exampleConfig 5 exampleFrame \<and> exampleRun = Some (1, snd (the exampleRun)) \<and>
   inOrder exampleConfig 5 (snd (the exampleRun)) \<and>
   carriedSequence (during exampleFrame (snd (the exampleRun))) = [5] \<and>
   sequenceNumber (node (snd (the exampleRun))) = 6"
proof -
  have duplicate: "inOrder exampleConfig 5 duplicateFrame"
    and start: "inOrder exampleConfig 5 exampleFrame"
    and last: "inOrder exampleConfig 65535 wrapFrame"
    by (simp_all add: inOrder_def numbering_def wrapped_def duplicateFrame_def wrapFrame_def
        example_defs)
  have running: "\<not> isShuttingDown (node duplicateFrame)"
    and number: "sequenceNumber (node duplicateFrame) = 5"
    "sequenceNumber (node exampleFrame) = 5"
    "sequenceNumber (node wrapFrame) + 1 = 2 ^ SEQUENCE_BITS exampleConfig"
    "SEQUENCE_BITS exampleConfig = 16"
    by (simp_all add: duplicateFrame_def wrapFrame_def example_defs)
  have suppress: "fst (shouldSuppressDuplicatePacket (node duplicateFrame))"
    by (simp add: duplicateFrame_def example_defs shouldSuppressDuplicatePacket_def
        packetIsDuplicate_def)
  have sends: "0 < fst (handlePacketSend exampleConfig wrapFrame)"
    by (simp add: wrapFrame_def example_defs send_defs packetIsDuplicate_def)
  have run: "packetDistributor exampleConfig [exampleAnswer] False exampleFrame =
      Some (1, snd (the exampleRun))"
    using exampleRun_Some by (simp only: exampleRun_def)
  have carried: "carriedSequence (during exampleFrame (snd (the exampleRun))) = [5]"
    by (simp add: exampleRun_events)
  show ?thesis
    using sequence_advances_on_transmission [OF duplicate, of "[]" False 0 duplicateFrame]
      sequence_advances_on_transmission [OF last, of "[]" False 0 wrapFrame]
      sequence_advances_on_transmission [OF start, of "[exampleAnswer]" False 1
        "snd (the exampleRun)"]
      duplicate start last running number suppress sends run exampleRun_Some carried
    by simp
qed

text \<open>
  The claim as stated fails: with 16 bits, a call that transmits the packet numbered 65535
  leaves the sequence number 0, which is not greater and not one more.
\<close>

theorem sequence_advances_counterexample:
  "inOrder exampleConfig 65535 wrapFrame \<and>
   sequenceNumber (node wrapFrame) = 65535 \<and>
   fst (handlePacketSend exampleConfig wrapFrame) = 1 \<and>
   during wrapFrame (snd (handlePacketSend exampleConfig wrapFrame)) =
     [PiggybackDatagram 100 65535 []] \<and>
   sequenceNumber (node (snd (handlePacketSend exampleConfig wrapFrame))) = 0"
  by (simp add: inOrder_def numbering_def wrapped_def wrapFrame_def example_defs send_defs
      packetIsDuplicate_def during_def getPacketLength_def)

end
